theory Spec2Isabelle
  imports Complex_Main "HOL-Library.Word" "HOL-Library.Monad_Syntax" "HOL-Library.Multiset"
begin

unbundle bit_operations_syntax

chapter \<open>The MEXC streamers: wire decoder, validation, buffers and flushes\<close>

section \<open>The hand-written protobuf decoder (PublicAggreBookTickerV3Api\_pb2.py)\<close>

text \<open>
  A \<^verbatim>\<open>bytes\<close> object is a list of 8-bit words; indexing it gives a Python int in
  \<open>0..255\<close>, read here with \<^term>\<open>unat\<close>. Positions, lengths, field numbers and varint
  values are Python ints that are never negative in this module (they only grow by
  additions, shifts and bitwise or of non-negative values), so they are naturals.
  A Python \<^verbatim>\<open>str\<close> is the list of its Unicode code points.
\<close>

type_synonym byte = "8 word"
type_synonym pystr = "nat list"

record PublicAggreBookTickerV3Api =
  bidPrice :: pystr
  bidQuantity :: pystr
  askPrice :: pystr
  askQuantity :: pystr

text \<open>\<^verbatim>\<open>__init__\<close>: the four fields start as empty strings.\<close>

definition init_book_ticker :: PublicAggreBookTickerV3Api where
  "init_book_ticker = \<lparr>bidPrice = [], bidQuantity = [], askPrice = [], askQuantity = []\<rparr>"

subsection \<open>\<^verbatim>\<open>_read_varint\<close>\<close>

text \<open>
  The \<^verbatim>\<open>while pos < len(data)\<close> loop with its \<^verbatim>\<open>break\<close>. The loop is defined without
  any termination argument: \<open>None\<close> would be a run that never returns.
\<close>

partial_function (option) read_varint_loop ::
  "byte list \<Rightarrow> nat \<Rightarrow> nat \<Rightarrow> nat \<Rightarrow> (nat \<times> nat) option" where
  "read_varint_loop data pos result shift =
     (if pos < length data then
        (let byte = data ! pos;
             pos' = pos + 1;
             result' = result OR push_bit shift (unat (byte AND 0x7F))
         in if byte AND 0x80 = 0 then Some (result', pos')
            else read_varint_loop data pos' result' (shift + 7))
      else Some (result, pos))"

declare read_varint_loop.simps [code]

definition read_varint :: "byte list \<Rightarrow> nat \<Rightarrow> (nat \<times> nat) option" where
  "read_varint data pos = read_varint_loop data pos 0 0"

subsection \<open>The bytes of a varint and their value\<close>

text \<open>
  The bytes a varint occupies from a position on: the bytes with the high bit set,
  and the first byte without it when the frame has one. Their value is the number they
  spell in base 128, the least significant group first.
\<close>

definition varint_bytes :: "byte list \<Rightarrow> nat \<Rightarrow> byte list" where
  "varint_bytes data pos =
     (let rest = drop pos data
      in take (Suc (length (takeWhile (\<lambda>b. 128 \<le> unat b) rest))) rest)"

fun varint_value :: "byte list \<Rightarrow> nat" where
  "varint_value [] = 0"
| "varint_value (b # bs) = unat b mod 128 + 128 * varint_value bs"

subsection \<open>\<^verbatim>\<open>_read_field_header\<close>\<close>

definition read_field_header :: "byte list \<Rightarrow> nat \<Rightarrow> (nat \<times> nat \<times> nat) option" where
  "read_field_header data pos =
     do { (field_num, pos') \<leftarrow> read_varint data pos;
          let wire_type = field_num AND 0x7;
          let field_num' = drop_bit 3 field_num;
          Some (field_num', wire_type, pos') }"

subsection \<open>\<^verbatim>\<open>bytes.decode('utf-8')\<close>\<close>

text \<open>
  Python's strict UTF-8 decoder: \<open>None\<close> is \<^verbatim>\<open>UnicodeDecodeError\<close>. Overlong forms,
  surrogates and code points above \<open>0x10FFFF\<close> are errors, as are stray or missing
  continuation bytes.
\<close>

definition is_cont :: "byte \<Rightarrow> bool" where
  "is_cont b = (0x80 \<le> unat b \<and> unat b \<le> 0xBF)"

fun utf8_decode :: "byte list \<Rightarrow> pystr option" where
  "utf8_decode [] = Some []"
| "utf8_decode (b0 # bs) =
     (let n0 = unat b0 in
      if n0 < 0x80 then map_option (Cons n0) (utf8_decode bs)
      else if 0xC2 \<le> n0 \<and> n0 \<le> 0xDF then
        (case bs of
           b1 # r \<Rightarrow>
             if is_cont b1
             then map_option (Cons ((n0 - 0xC0) * 64 + (unat b1 - 0x80))) (utf8_decode r)
             else None
         | _ \<Rightarrow> None)
      else if 0xE0 \<le> n0 \<and> n0 \<le> 0xEF then
        (case bs of
           b1 # b2 # r \<Rightarrow>
             (let cp = (n0 - 0xE0) * 4096 + (unat b1 - 0x80) * 64 + (unat b2 - 0x80) in
              if is_cont b1 \<and> is_cont b2 \<and> 0x800 \<le> cp \<and> \<not> (0xD800 \<le> cp \<and> cp \<le> 0xDFFF)
              then map_option (Cons cp) (utf8_decode r)
              else None)
         | _ \<Rightarrow> None)
      else if 0xF0 \<le> n0 \<and> n0 \<le> 0xF4 then
        (case bs of
           b1 # b2 # b3 # r \<Rightarrow>
             (let cp = (n0 - 0xF0) * 262144 + (unat b1 - 0x80) * 4096
                       + (unat b2 - 0x80) * 64 + (unat b3 - 0x80) in
              if is_cont b1 \<and> is_cont b2 \<and> is_cont b3 \<and> 0x10000 \<le> cp \<and> cp \<le> 0x10FFFF
              then map_option (Cons cp) (utf8_decode r)
              else None)
         | _ \<Rightarrow> None)
      else None)"

subsection \<open>\<^verbatim>\<open>_read_string\<close>\<close>

text \<open>
  The slice \<^verbatim>\<open>data[pos:pos + length]\<close> is \<open>take length (drop pos data)\<close>. The guard
  returns the empty string, with the position left after the length varint; a failed
  decode returns the empty string with the position after the payload.
\<close>

definition read_string :: "byte list \<Rightarrow> nat \<Rightarrow> (pystr \<times> nat) option" where
  "read_string data pos =
     do { (len, pos') \<leftarrow> read_varint data pos;
          if pos' + len > length data then Some ([], pos')
          else
            let string_data = take len (drop pos' data);
                pos'' = pos' + len
            in (case utf8_decode string_data of
                  Some s \<Rightarrow> Some (s, pos'')
                | None \<Rightarrow> Some ([], pos'')) }"

subsection \<open>\<^verbatim>\<open>_skip_field\<close>\<close>

definition skip_field :: "byte list \<Rightarrow> nat \<Rightarrow> nat \<Rightarrow> nat option" where
  "skip_field data pos wire_type =
     (if wire_type = 0 then do { (_, pos') \<leftarrow> read_varint data pos; Some pos' }
      else if wire_type = 2 then
        do { (len, pos') \<leftarrow> read_varint data pos; Some (pos' + len) }
      else if wire_type = 1 then Some (pos + 8)
      else if wire_type = 5 then Some (pos + 4)
      else Some pos)"

subsection \<open>\<^verbatim>\<open>ParseFromString\<close>\<close>

text \<open>One iteration of the \<^verbatim>\<open>while\<close> body after the header: the \<^verbatim>\<open>if/elif\<close> chain.\<close>

definition parse_field ::
  "PublicAggreBookTickerV3Api \<Rightarrow> byte list \<Rightarrow> nat \<Rightarrow> nat \<Rightarrow> nat
     \<Rightarrow> (PublicAggreBookTickerV3Api \<times> nat) option" where
  "parse_field self data field_num wire_type pos =
     (if field_num = 1 then
        do { (s, pos') \<leftarrow> read_string data pos; Some (self\<lparr>bidPrice := s\<rparr>, pos') }
      else if field_num = 2 then
        do { (s, pos') \<leftarrow> read_string data pos; Some (self\<lparr>bidQuantity := s\<rparr>, pos') }
      else if field_num = 3 then
        do { (s, pos') \<leftarrow> read_string data pos; Some (self\<lparr>askPrice := s\<rparr>, pos') }
      else if field_num = 4 then
        do { (s, pos') \<leftarrow> read_string data pos; Some (self\<lparr>askQuantity := s\<rparr>, pos') }
      else
        do { pos' \<leftarrow> skip_field data pos wire_type; Some (self, pos') })"

definition parse_step ::
  "PublicAggreBookTickerV3Api \<Rightarrow> byte list \<Rightarrow> nat
     \<Rightarrow> (PublicAggreBookTickerV3Api \<times> nat) option" where
  "parse_step self data pos =
     do { (field_num, wire_type, pos') \<leftarrow> read_field_header data pos;
          parse_field self data field_num wire_type pos' }"

partial_function (option) parse_loop ::
  "PublicAggreBookTickerV3Api \<Rightarrow> byte list \<Rightarrow> nat \<Rightarrow> PublicAggreBookTickerV3Api option" where
  "parse_loop self data pos =
     (if pos < length data then
        do { (self', pos') \<leftarrow> parse_step self data pos;
             parse_loop self' data pos' }
      else Some self)"

declare parse_loop.simps [code]

text \<open>
  On a \<^verbatim>\<open>bytes\<close> argument no statement of the \<^verbatim>\<open>try\<close> body raises: every index is
  guarded by \<^verbatim>\<open>pos < len(data)\<close>, slices never raise, Python ints do not overflow and
  the decode error is caught inside \<^verbatim>\<open>_read_string\<close>. The \<^verbatim>\<open>except\<close> branch, which would
  return \<open>False\<close>, therefore has no entry in the model; the result is the returned
  flag together with the object's fields afterwards, and \<open>None\<close> would be a call that
  does not return.
\<close>

definition ParseFromString ::
  "PublicAggreBookTickerV3Api \<Rightarrow> byte list \<Rightarrow> (bool \<times> PublicAggreBookTickerV3Api) option" where
  "ParseFromString self data =
     do { self' \<leftarrow> parse_loop self data 0; Some (True, self') }"

section \<open>The reference encoder\<close>

text \<open>
  The encoder a frame is built with, following the wire format the specification names:
  a varint is little-endian base 128 with the high bit of each byte as continuation
  bit; a key is the varint of \<open>(fieldNumber << 3) | wireType\<close>; fields 1 to 4 of the
  book-ticker schema are length-delimited UTF-8 strings; any other field is a varint
  (wire type 0), 8 raw bytes (1), a length-delimited payload (2) or 4 raw bytes (5).
\<close>

function encode_varint :: "nat \<Rightarrow> byte list" where
  "encode_varint n =
     (if n < 128 then [of_nat n]
      else of_nat (n mod 128 + 128) # encode_varint (n div 128))"
  by pat_completeness auto
termination
  by (relation "measure id") auto

declare encode_varint.simps [simp del]

text \<open>A Unicode scalar value: what a \<^verbatim>\<open>str\<close> that can be encoded consists of.\<close>

definition valid_code_point :: "nat \<Rightarrow> bool" where
  "valid_code_point cp = (cp < 0x110000 \<and> \<not> (0xD800 \<le> cp \<and> cp \<le> 0xDFFF))"

definition utf8_encode_cp :: "nat \<Rightarrow> byte list" where
  "utf8_encode_cp cp =
     (if cp < 0x80 then [of_nat cp]
      else if cp < 0x800 then [of_nat (0xC0 + cp div 64), of_nat (0x80 + cp mod 64)]
      else if cp < 0x10000 then
        [of_nat (0xE0 + cp div 4096), of_nat (0x80 + cp div 64 mod 64), of_nat (0x80 + cp mod 64)]
      else
        [of_nat (0xF0 + cp div 262144), of_nat (0x80 + cp div 4096 mod 64),
         of_nat (0x80 + cp div 64 mod 64), of_nat (0x80 + cp mod 64)])"

definition utf8_encode :: "pystr \<Rightarrow> byte list" where
  "utf8_encode s = concat (map utf8_encode_cp s)"

datatype wire_field =
    StringField nat pystr
  | VarintField nat nat
  | Fixed64Field nat "byte list"
  | BytesField nat "byte list"
  | Fixed32Field nat "byte list"

definition encode_key :: "nat \<Rightarrow> nat \<Rightarrow> byte list" where
  "encode_key field_number wire_type = encode_varint (push_bit 3 field_number OR wire_type)"

fun encode_field :: "wire_field \<Rightarrow> byte list" where
  "encode_field (StringField f s) =
     encode_key f 2 @ encode_varint (length (utf8_encode s)) @ utf8_encode s"
| "encode_field (VarintField f v) = encode_key f 0 @ encode_varint v"
| "encode_field (Fixed64Field f bs) = encode_key f 1 @ bs"
| "encode_field (BytesField f bs) = encode_key f 2 @ encode_varint (length bs) @ bs"
| "encode_field (Fixed32Field f bs) = encode_key f 5 @ bs"

definition encode_frame :: "wire_field list \<Rightarrow> byte list" where
  "encode_frame fs = concat (map encode_field fs)"

text \<open>
  A field of a valid frame over the schema: the four known numbers carry strings of
  scalar values, every other field has a number from 5 on and a payload of the size its
  wire type fixes.
\<close>

fun valid_field :: "wire_field \<Rightarrow> bool" where
  "valid_field (StringField f s) = (1 \<le> f \<and> f \<le> 4 \<and> list_all valid_code_point s)"
| "valid_field (VarintField f v) = (5 \<le> f)"
| "valid_field (Fixed64Field f bs) = (5 \<le> f \<and> length bs = 8)"
| "valid_field (BytesField f bs) = (5 \<le> f)"
| "valid_field (Fixed32Field f bs) = (5 \<le> f \<and> length bs = 4)"

text \<open>What a field of the frame says about the message: the value it encodes.\<close>

fun store_field ::
  "PublicAggreBookTickerV3Api \<Rightarrow> wire_field \<Rightarrow> PublicAggreBookTickerV3Api" where
  "store_field m (StringField f s) =
     (if f = 1 then m\<lparr>bidPrice := s\<rparr>
      else if f = 2 then m\<lparr>bidQuantity := s\<rparr>
      else if f = 3 then m\<lparr>askPrice := s\<rparr>
      else if f = 4 then m\<lparr>askQuantity := s\<rparr>
      else m)"
| "store_field m (VarintField f v) = m"
| "store_field m (Fixed64Field f bs) = m"
| "store_field m (BytesField f bs) = m"
| "store_field m (Fixed32Field f bs) = m"

section \<open>Python floats\<close>

text \<open>
  A Python \<^verbatim>\<open>float\<close> is an IEEE-754 binary64 value: a finite number, an infinity or a
  NaN. The sign of a zero is not kept: the streamers only compare, subtract, divide and
  multiply, and both zeros behave alike there. Every arithmetic result is rounded to the
  nearest binary64 value, ties to even, by \<open>round_binary64\<close>; comparisons are exact.
\<close>

datatype pyfloat = Finite real | PosInf | NegInf | NaN

definition pow2 :: "int \<Rightarrow> real" where
  "pow2 k = (if 0 \<le> k then 2 ^ nat k else 1 / 2 ^ nat (- k))"

fun bit_length :: "nat \<Rightarrow> nat" where
  "bit_length n = (if n = 0 then 0 else Suc (bit_length (n div 2)))"

declare bit_length.simps [simp del]

text \<open>For \<open>a > 0\<close>, the exponent \<open>e\<close> with \<open>2 ^ e \<le> a < 2 ^ (e + 1)\<close>.\<close>

definition floor_log2 :: "real \<Rightarrow> int" where
  "floor_log2 a =
     (if 1 \<le> a then int (bit_length (nat \<lfloor>a\<rfloor>)) - 1
      else - int (bit_length (nat (\<lceil>1 / a\<rceil> - 1))))"

definition round_half_even :: "real \<Rightarrow> int" where
  "round_half_even x =
     (let f = \<lfloor>x\<rfloor>; r = x - of_int f
      in if r < 1 / 2 then f else if 1 / 2 < r then f + 1
         else if even f then f else f + 1)"

text \<open>
  53 significant bits; the exponent is not taken below \<open>-1022\<close> (subnormal numbers);
  a rounded magnitude of \<open>2 ^ 1024\<close> or more is an infinity.
\<close>

definition round_binary64 :: "real \<Rightarrow> pyfloat" where
  "round_binary64 x =
     (if x = 0 then Finite 0
      else
        let a = \<bar>x\<bar>;
            e = max (floor_log2 a) (- 1022);
            ulp = pow2 (e - 52);
            v = of_int (round_half_even (a / ulp)) * ulp
        in if pow2 1024 \<le> v then (if 0 < x then PosInf else NegInf)
           else Finite (if 0 < x then v else - v))"

text \<open>\<^verbatim>\<open>a > b\<close>, \<^verbatim>\<open>a != b\<close>, \<^verbatim>\<open>abs(a)\<close>, \<^verbatim>\<open>a - b\<close>, \<^verbatim>\<open>a * b\<close> and \<^verbatim>\<open>a / b\<close> on floats.\<close>

fun py_gt :: "pyfloat \<Rightarrow> pyfloat \<Rightarrow> bool" where
  "py_gt NaN _ = False"
| "py_gt _ NaN = False"
| "py_gt (Finite x) (Finite y) = (y < x)"
| "py_gt PosInf PosInf = False"
| "py_gt PosInf _ = True"
| "py_gt _ PosInf = False"
| "py_gt NegInf _ = False"
| "py_gt _ NegInf = True"

fun py_ne :: "pyfloat \<Rightarrow> pyfloat \<Rightarrow> bool" where
  "py_ne NaN _ = True"
| "py_ne _ NaN = True"
| "py_ne a b = (a \<noteq> b)"

fun py_abs :: "pyfloat \<Rightarrow> pyfloat" where
  "py_abs (Finite x) = Finite \<bar>x\<bar>"
| "py_abs PosInf = PosInf"
| "py_abs NegInf = PosInf"
| "py_abs NaN = NaN"

fun py_sub :: "pyfloat \<Rightarrow> pyfloat \<Rightarrow> pyfloat" where
  "py_sub NaN _ = NaN"
| "py_sub _ NaN = NaN"
| "py_sub (Finite x) (Finite y) = round_binary64 (x - y)"
| "py_sub PosInf PosInf = NaN"
| "py_sub NegInf NegInf = NaN"
| "py_sub PosInf _ = PosInf"
| "py_sub NegInf _ = NegInf"
| "py_sub _ PosInf = NegInf"
| "py_sub _ NegInf = PosInf"

fun py_sign :: "pyfloat \<Rightarrow> int" where
  "py_sign (Finite x) = (if 0 < x then 1 else if x < 0 then - 1 else 0)"
| "py_sign PosInf = 1"
| "py_sign NegInf = - 1"
| "py_sign NaN = 0"

definition signed_inf :: "int \<Rightarrow> pyfloat" where
  "signed_inf s = (if s = 0 then NaN else if 0 < s then PosInf else NegInf)"

fun py_mul :: "pyfloat \<Rightarrow> pyfloat \<Rightarrow> pyfloat" where
  "py_mul NaN _ = NaN"
| "py_mul _ NaN = NaN"
| "py_mul (Finite x) (Finite y) = round_binary64 (x * y)"
| "py_mul a b = signed_inf (py_sign a * py_sign b)"

text \<open>\<open>None\<close> is \<^verbatim>\<open>ZeroDivisionError\<close>.\<close>

fun py_truediv :: "pyfloat \<Rightarrow> pyfloat \<Rightarrow> pyfloat option" where
  "py_truediv a (Finite y) =
     (if y = 0 then None
      else case a of
             Finite x \<Rightarrow> Some (round_binary64 (x / y))
           | NaN \<Rightarrow> Some NaN
           | _ \<Rightarrow> Some (signed_inf (py_sign a * py_sign (Finite y))))"
| "py_truediv NaN _ = Some NaN"
| "py_truediv _ NaN = Some NaN"
| "py_truediv (Finite x) _ = Some (Finite 0)"
| "py_truediv _ _ = Some NaN"

section \<open>Decoded messages\<close>

text \<open>
  Modelled from the spec: the wrapper class \<^verbatim>\<open>PushDataV3ApiWrapper\<close> that both streamers
  import is not among the sources. The record has the attributes the streamers read:
  the channel, the symbol, the send time and the two payloads, each absent (\<open>None\<close>)
  or present; the deals payload is its list of deals, each with the decimal strings of
  price and quantity, the trade type and the time. The outcome of the wrapper's own
  \<^verbatim>\<open>ParseFromString\<close> is an argument of the functions below (\<open>None\<close>: it raised).
\<close>

record Deal =
  price :: pystr
  quantity :: pystr
  tradeType :: int
  time :: int

record PushDataV3ApiWrapper =
  channel :: pystr
  symbol :: pystr
  sendTime :: int
  publicAggreDeals :: "Deal list option"
  publicAggreBookTicker :: "PublicAggreBookTickerV3Api option"

text \<open>A \<^verbatim>\<open>str\<close> literal of ASCII characters.\<close>

definition str_of :: "string \<Rightarrow> pystr" where
  "str_of cs = map of_char cs"

section \<open>Trades (mexc\_multi\_streamer.py)\<close>

subsection \<open>\<^verbatim>\<open>_parse_protobuf_message\<close>\<close>

text \<open>The dictionary built for an accepted deal.\<close>

record trade =
  trade_price :: pyfloat
  trade_quantity :: pyfloat
  trade_type :: int
  trade_symbol :: pystr
  trade_channel :: pystr
  trade_timestamp :: int

text \<open>The condition headed \<^verbatim>\<open># Basic validation\<close>; the literal \<^verbatim>\<open>0.001\<close> is a float.\<close>

definition deal_valid :: "pyfloat \<Rightarrow> pyfloat \<Rightarrow> bool" where
  "deal_valid p q =
     (py_gt p (Finite 0) \<and> py_gt q (Finite 0) \<and> py_ne p q \<and>
      py_gt (py_abs (py_sub p q)) (round_binary64 (1 / 1000)))"

text \<open>
  The body of the loop over the deals. \<open>py_float\<close> is \<^verbatim>\<open>float()\<close> on a string, \<open>None\<close>
  when it raises \<^verbatim>\<open>ValueError\<close>, which the inner \<^verbatim>\<open>except\<close> turns into \<^verbatim>\<open>continue\<close>;
  \<open>now\<close> is the reading \<^verbatim>\<open>int(time.time() * 1000)\<close> of the wall clock at this deal.
\<close>

definition parse_deal ::
  "(pystr \<Rightarrow> pyfloat option) \<Rightarrow> int \<Rightarrow> pystr \<Rightarrow> pystr \<Rightarrow> Deal \<Rightarrow> trade option" where
  "parse_deal py_float now message_symbol chan deal =
     (case py_float (price deal) of
        None \<Rightarrow> None
      | Some p \<Rightarrow>
          (case py_float (quantity deal) of
             None \<Rightarrow> None
           | Some q \<Rightarrow>
               if deal_valid p q then
                 Some \<lparr>trade_price = p, trade_quantity = q, trade_type = tradeType deal,
                       trade_symbol = message_symbol, trade_channel = chan,
                       trade_timestamp = (if time deal > 0 then time deal else now)\<rparr>
               else None))"

text \<open>The loop; \<open>clock i\<close> is the wall-clock reading while deal number \<open>i\<close> is handled.\<close>

fun parse_deals ::
  "(pystr \<Rightarrow> pyfloat option) \<Rightarrow> (nat \<Rightarrow> int) \<Rightarrow> pystr \<Rightarrow> pystr \<Rightarrow> nat \<Rightarrow> Deal list
     \<Rightarrow> trade list \<Rightarrow> trade list" where
  "parse_deals py_float clock message_symbol chan i [] trades = trades"
| "parse_deals py_float clock message_symbol chan i (deal # deals) trades =
     parse_deals py_float clock message_symbol chan (Suc i) deals
       (case parse_deal py_float (clock i) message_symbol chan deal of
          None \<Rightarrow> trades
        | Some t \<Rightarrow> trades @ [t])"

text \<open>
  The whole function: \<open>wrapper\<close> is the outcome of parsing the data (\<open>None\<close> is an
  exception, caught by the outer \<^verbatim>\<open>except\<close>), \<open>symbol_arg\<close> the optional parameter.
\<close>

definition parse_trade_message ::
  "(pystr \<Rightarrow> pyfloat option) \<Rightarrow> (nat \<Rightarrow> int) \<Rightarrow> PushDataV3ApiWrapper option \<Rightarrow> pystr option
     \<Rightarrow> trade list" where
  "parse_trade_message py_float clock wrapper symbol_arg =
     (case wrapper of
        None \<Rightarrow> []
      | Some w \<Rightarrow>
          (let message_symbol =
                 (if symbol w \<noteq> [] then symbol w
                  else case symbol_arg of None \<Rightarrow> [] | Some s \<Rightarrow> s)
           in if message_symbol = [] then []
              else case publicAggreDeals w of
                     None \<Rightarrow> []
                   | Some deals \<Rightarrow> parse_deals py_float clock message_symbol (channel w) 0 deals []))"

subsection \<open>\<^verbatim>\<open>_process_trade\<close>\<close>

record trade_row =
  row_timestamp :: int
  row_datetime :: pystr
  row_symbol :: pystr
  row_price :: pyfloat
  row_quantity :: pyfloat
  row_trade_type :: int
  row_trade_type_str :: pystr
  row_channel :: pystr
  row_event_type :: pystr

text \<open>
  \<open>strftime\<close> is \<^verbatim>\<open>datetime.fromtimestamp(timestamp / 1000).strftime(...)[:-3]\<close>, \<open>None\<close>
  when the timestamp is outside the range the platform converts and the call raises.
\<close>

definition trade_data_row :: "(int \<Rightarrow> pystr option) \<Rightarrow> trade \<Rightarrow> trade_row option" where
  "trade_data_row strftime t =
     (case strftime (trade_timestamp t) of
        None \<Rightarrow> None
      | Some dt \<Rightarrow>
          Some \<lparr>row_timestamp = trade_timestamp t, row_datetime = dt,
                row_symbol = trade_symbol t, row_price = trade_price t,
                row_quantity = trade_quantity t, row_trade_type = trade_type t,
                row_trade_type_str = (if trade_type t = 1 then str_of ''BUY'' else str_of ''SELL''),
                row_channel = trade_channel t,
                row_event_type = str_of ''spot@public.aggre.deals.v3.api.pb@100ms''\<rparr>)"

section \<open>The state of a streamer\<close>

text \<open>
  Both streamers keep the same attributes: the list of symbols, one buffer and one
  counter per symbol (dictionaries), one CSV file per symbol, the time of the last save
  and the save interval. The content of a file is the list of rows written after the
  header; a row is written as the list of all fields of the buffered row in a fixed
  order, so the buffered row stands for it. Console output is not part of the state.
\<close>

record 'r streamer =
  symbols :: "pystr list"
  buffers :: "pystr \<rightharpoonup> 'r list"
  totals :: "pystr \<rightharpoonup> nat"
  csv_files :: "pystr \<rightharpoonup> 'r list"
  last_save_time :: int
  save_interval :: int

text \<open>
  \<^verbatim>\<open>__init__\<close>: \<open>upper\<close> is \<^verbatim>\<open>str.upper\<close>, \<open>syms\<close> the list \<^verbatim>\<open>symbols or SYMBOLS\<close>. Every file
  starts with its header only.
\<close>

definition init_streamer :: "(pystr \<Rightarrow> pystr) \<Rightarrow> pystr list \<Rightarrow> int \<Rightarrow> int \<Rightarrow> 'r streamer" where
  "init_streamer upper syms now interval =
     \<lparr>symbols = map upper syms,
      buffers = map_of (map (\<lambda>s. (s, [])) (map upper syms)),
      totals = map_of (map (\<lambda>s. (s, 0)) (map upper syms)),
      csv_files = map_of (map (\<lambda>s. (s, [])) (map upper syms)),
      last_save_time = now,
      save_interval = interval\<rparr>"

text \<open>
  The last two statements of \<^verbatim>\<open>_process_trade\<close> and \<^verbatim>\<open>_process_ticker_data\<close>: append the
  row, count it. A missing key raises \<^verbatim>\<open>KeyError\<close>, which the enclosing \<^verbatim>\<open>except\<close> of these
  functions swallows: the statements before it have taken effect.
\<close>

definition append_row :: "pystr \<Rightarrow> 'r \<Rightarrow> 'r streamer \<Rightarrow> 'r streamer" where
  "append_row skey data_row st =
     (case buffers st skey of
        None \<Rightarrow> st
      | Some buf \<Rightarrow>
          (let st1 = st\<lparr>buffers := (buffers st)(skey \<mapsto> buf @ [data_row])\<rparr>
           in case totals st1 skey of
                None \<Rightarrow> st1
              | Some n \<Rightarrow> st1\<lparr>totals := (totals st1)(skey \<mapsto> n + 1)\<rparr>))"

definition process_trade ::
  "(int \<Rightarrow> pystr option) \<Rightarrow> trade \<Rightarrow> pystr \<Rightarrow> trade_row streamer \<Rightarrow> trade_row streamer" where
  "process_trade strftime t skey st =
     (case trade_data_row strftime t of
        None \<Rightarrow> st
      | Some data_row \<Rightarrow> append_row skey data_row st)"

subsection \<open>\<^verbatim>\<open>_on_message\<close> of the trade streamer\<close>

text \<open>
  \<^verbatim>\<open>trades_by_symbol\<close> is a dictionary filled in the order of the trades: a list of
  pairs with distinct keys, a new key going to the end.
\<close>

definition dict_append :: "pystr \<Rightarrow> 'a \<Rightarrow> (pystr \<times> 'a list) list \<Rightarrow> (pystr \<times> 'a list) list" where
  "dict_append k v d =
     (case map_of d k of
        None \<Rightarrow> d @ [(k, [v])]
      | Some _ \<Rightarrow> map (\<lambda>(k', vs). if k' = k then (k', vs @ [v]) else (k', vs)) d)"

fun group_trades ::
  "pystr list \<Rightarrow> trade list \<Rightarrow> (pystr \<times> trade list) list \<Rightarrow> (pystr \<times> trade list) list" where
  "group_trades syms [] trades_by_symbol = trades_by_symbol"
| "group_trades syms (t # ts) trades_by_symbol =
     group_trades syms ts
       (if trade_symbol t \<noteq> [] \<and> trade_symbol t \<in> set syms
        then dict_append (trade_symbol t) t trades_by_symbol
        else trades_by_symbol)"

text \<open>The statements under \<^verbatim>\<open>with self.buffer_locks[symbol]\<close>: one critical section.\<close>

definition locked_process_trades ::
  "(int \<Rightarrow> pystr option) \<Rightarrow> pystr \<Rightarrow> trade list \<Rightarrow> trade_row streamer \<Rightarrow> trade_row streamer" where
  "locked_process_trades strftime skey symbol_trades st =
     foldl (\<lambda>st' t. process_trade strftime t skey st') st symbol_trades"

definition route_trades ::
  "(int \<Rightarrow> pystr option) \<Rightarrow> trade list \<Rightarrow> trade_row streamer \<Rightarrow> trade_row streamer" where
  "route_trades strftime trades st =
     (if trades = [] then st
      else foldl (\<lambda>st' (skey, symbol_trades). locked_process_trades strftime skey symbol_trades st')
             st (group_trades (symbols st) trades []))"

text \<open>The branch of \<^verbatim>\<open>_on_message\<close> for a binary message.\<close>

definition on_message ::
  "(pystr \<Rightarrow> pyfloat option) \<Rightarrow> (nat \<Rightarrow> int) \<Rightarrow> (int \<Rightarrow> pystr option)
     \<Rightarrow> PushDataV3ApiWrapper option \<Rightarrow> trade_row streamer \<Rightarrow> trade_row streamer" where
  "on_message py_float clock strftime wrapper st =
     route_trades strftime (parse_trade_message py_float clock wrapper None) st"

section \<open>Book tickers (mexc\_bookticker\_streamer.py)\<close>

subsection \<open>\<^verbatim>\<open>_parse_protobuf_message\<close>\<close>

record ticker =
  ticker_symbol :: pystr
  bid_price :: pyfloat
  bid_quantity :: pyfloat
  ask_price :: pyfloat
  ask_quantity :: pyfloat
  spread :: pyfloat
  spread_percent :: pyfloat
  ticker_channel :: pystr
  ticker_timestamp :: int

text \<open>\<^verbatim>\<open>float(x) if x else 0.0\<close>: \<open>None\<close> is the \<^verbatim>\<open>ValueError\<close> of \<^verbatim>\<open>float\<close>.\<close>

definition float_or_zero :: "(pystr \<Rightarrow> pyfloat option) \<Rightarrow> pystr \<Rightarrow> pyfloat option" where
  "float_or_zero py_float x = (if x \<noteq> [] then py_float x else Some (Finite 0))"

text \<open>The two assignments under \<^verbatim>\<open># Calculate spread\<close>.\<close>

definition ticker_spread :: "pyfloat \<Rightarrow> pyfloat \<Rightarrow> pyfloat" where
  "ticker_spread ask bid =
     (if py_gt ask (Finite 0) \<and> py_gt bid (Finite 0) then py_sub ask bid else Finite 0)"

definition ticker_spread_percent :: "pyfloat \<Rightarrow> pyfloat \<Rightarrow> pyfloat option" where
  "ticker_spread_percent sp bid =
     (if py_gt bid (Finite 0)
      then map_option (\<lambda>x. py_mul x (Finite 100)) (py_truediv sp bid)
      else Some (Finite 0))"

text \<open>
  The four positivity tests under \<^verbatim>\<open># Validate data\<close>, in the order bid price, ask
  price, bid quantity, ask quantity.
\<close>

definition ticker_valid :: "pyfloat \<Rightarrow> pyfloat \<Rightarrow> pyfloat \<Rightarrow> pyfloat \<Rightarrow> bool" where
  "ticker_valid bid bidq ask askq =
     (py_gt bid (Finite 0) \<and> py_gt ask (Finite 0) \<and> py_gt bidq (Finite 0) \<and> py_gt askq (Finite 0))"

text \<open>
  The function: every exception (a failed wrapper parse, a \<^verbatim>\<open>ValueError\<close> of \<^verbatim>\<open>float\<close>, a
  division by zero) ends in the \<^verbatim>\<open>except\<close> branch, which returns \<^verbatim>\<open>None\<close>, as a missing
  payload and a failed validation do.
\<close>

definition parse_ticker_message ::
  "(pystr \<Rightarrow> pyfloat option) \<Rightarrow> PushDataV3ApiWrapper option \<Rightarrow> ticker option" where
  "parse_ticker_message py_float wrapper =
     (case wrapper of
        None \<Rightarrow> None
      | Some w \<Rightarrow>
          (case publicAggreBookTicker w of
             None \<Rightarrow> None
           | Some book_ticker \<Rightarrow>
               do { bid \<leftarrow> float_or_zero py_float (bidPrice book_ticker);
                    bidq \<leftarrow> float_or_zero py_float (bidQuantity book_ticker);
                    ask \<leftarrow> float_or_zero py_float (askPrice book_ticker);
                    askq \<leftarrow> float_or_zero py_float (askQuantity book_ticker);
                    let sp = ticker_spread ask bid;
                    spp \<leftarrow> ticker_spread_percent sp bid;
                    if ticker_valid bid bidq ask askq then
                      Some \<lparr>ticker_symbol = symbol w, bid_price = bid, bid_quantity = bidq,
                            ask_price = ask, ask_quantity = askq, spread = sp,
                            spread_percent = spp, ticker_channel = channel w,
                            ticker_timestamp = sendTime w\<rparr>
                    else None }))"

subsection \<open>\<^verbatim>\<open>_process_ticker_data\<close> and \<^verbatim>\<open>_on_message\<close>\<close>

record ticker_row =
  tr_timestamp :: int
  tr_datetime :: pystr
  tr_symbol :: pystr
  tr_bid_price :: pyfloat
  tr_bid_quantity :: pyfloat
  tr_ask_price :: pyfloat
  tr_ask_quantity :: pyfloat
  tr_spread :: pyfloat
  tr_spread_percent :: pyfloat
  tr_channel :: pystr
  tr_event_type :: pystr

text \<open>\<open>now_str\<close> is \<^verbatim>\<open>datetime.now()\<close> in the same format.\<close>

definition ticker_data_row ::
  "(int \<Rightarrow> pystr option) \<Rightarrow> pystr \<Rightarrow> ticker \<Rightarrow> pystr \<Rightarrow> ticker_row option" where
  "ticker_data_row strftime now_str td skey =
     (case (if ticker_timestamp td > 0 then strftime (ticker_timestamp td) else Some now_str) of
        None \<Rightarrow> None
      | Some dt \<Rightarrow>
          Some \<lparr>tr_timestamp = ticker_timestamp td, tr_datetime = dt, tr_symbol = skey,
                tr_bid_price = bid_price td, tr_bid_quantity = bid_quantity td,
                tr_ask_price = ask_price td, tr_ask_quantity = ask_quantity td,
                tr_spread = spread td, tr_spread_percent = spread_percent td,
                tr_channel = ticker_channel td,
                tr_event_type = str_of ''spot@public.aggre.bookTicker.v3.api.pb@100ms''\<rparr>)"

definition process_ticker_data ::
  "(int \<Rightarrow> pystr option) \<Rightarrow> pystr \<Rightarrow> ticker \<Rightarrow> pystr \<Rightarrow> ticker_row streamer
     \<Rightarrow> ticker_row streamer" where
  "process_ticker_data strftime now_str td skey st =
     (case ticker_data_row strftime now_str td skey of
        None \<Rightarrow> st
      | Some data_row \<Rightarrow> append_row skey data_row st)"

definition on_message_ticker ::
  "(pystr \<Rightarrow> pyfloat option) \<Rightarrow> (int \<Rightarrow> pystr option) \<Rightarrow> pystr
     \<Rightarrow> PushDataV3ApiWrapper option \<Rightarrow> ticker_row streamer \<Rightarrow> ticker_row streamer" where
  "on_message_ticker py_float strftime now_str wrapper st =
     (case parse_ticker_message py_float wrapper of
        None \<Rightarrow> st
      | Some td \<Rightarrow>
          if ticker_symbol td \<noteq> [] \<and> ticker_symbol td \<in> set (symbols st)
          then process_ticker_data strftime now_str td (ticker_symbol td) st
          else st)"

section \<open>\<^verbatim>\<open>save_data_to_csv\<close> (both streamers)\<close>

text \<open>
  What the three statements \<^verbatim>\<open>open\<close>, \<^verbatim>\<open>writer.writerows\<close> and the closing of the file do
  to the file is not decided by the program: they end normally, all rows of the batch
  being in the file, or one of them raises after some of the rows, counted from the
  first, have reached the file: none when \<^verbatim>\<open>open\<close> raises, all of them when only the
  closing raises. The file is kept row by row, so a row that reached it in part is not
  counted.
\<close>

datatype sink_outcome = Written | Failed nat

fun rows_written :: "sink_outcome \<Rightarrow> 'r list \<Rightarrow> 'r list" where
  "rows_written Written csv_rows = csv_rows"
| "rows_written (Failed n) csv_rows = take n csv_rows"

text \<open>
  The statements under \<^verbatim>\<open>with self.buffer_locks[symbol]\<close> for one symbol. \<open>sink\<close> gives
  the outcome of the write to each symbol's file. The result is \<open>Inr\<close> of the state
  when the block ends normally and \<open>Inl\<close> of the state when an exception leaves it: the
  exception of a failed write skips \<^verbatim>\<open>clear()\<close>, and what the write put in the file before
  it raised stays there.
\<close>

definition save_symbol ::
  "(pystr \<Rightarrow> sink_outcome) \<Rightarrow> pystr \<Rightarrow> 'r streamer \<Rightarrow> 'r streamer + 'r streamer" where
  "save_symbol sink skey st =
     (case buffers st skey of
        None \<Rightarrow> Inl st
      | Some buf \<Rightarrow>
          if buf = [] then Inr st
          else
            (case csv_files st skey of
               None \<Rightarrow> Inl st
             | Some rows \<Rightarrow>
                 (let st1 = st\<lparr>csv_files := (csv_files st)(skey \<mapsto> rows @ rows_written (sink skey) buf)\<rparr>
                  in case sink skey of
                       Written \<Rightarrow> Inr (st1\<lparr>buffers := (buffers st1)(skey \<mapsto> [])\<rparr>)
                     | Failed n \<Rightarrow> Inl st1)))"

text \<open>The \<^verbatim>\<open>for symbol in self.symbols\<close> loop: an exception ends it.\<close>

fun save_loop ::
  "(pystr \<Rightarrow> sink_outcome) \<Rightarrow> pystr list \<Rightarrow> 'r streamer \<Rightarrow> 'r streamer + 'r streamer" where
  "save_loop sink [] st = Inr st"
| "save_loop sink (skey # rest) st =
     (case save_symbol sink skey st of
        Inl st' \<Rightarrow> Inl st'
      | Inr st' \<Rightarrow> save_loop sink rest st')"

text \<open>
  The function: after the loop the time of the last save is set to \<open>now\<close>; the
  \<^verbatim>\<open>except\<close> branch only prints.
\<close>

definition save_data_to_csv ::
  "(pystr \<Rightarrow> sink_outcome) \<Rightarrow> int \<Rightarrow> 'r streamer \<Rightarrow> 'r streamer" where
  "save_data_to_csv sink now st =
     (case save_loop sink (symbols st) st of
        Inr st' \<Rightarrow> st'\<lparr>last_save_time := now\<rparr>
      | Inl st' \<Rightarrow> st')"

definition should_save_data :: "int \<Rightarrow> 'r streamer \<Rightarrow> bool" where
  "should_save_data now st = (save_interval st \<le> now - last_save_time st)"

section \<open>Interleavings of the critical sections\<close>

text \<open>
  The ingest thread and the saving thread touch a symbol's buffer only inside that
  symbol's lock, so a run of the trade streamer is a sequence of critical sections in
  some order: the appends of one message for one symbol, the drain of one symbol with
  the outcome of its write, the time stamp at the end of a save, and the reads of the
  statistics thread, which change nothing. An exception leaving a drain only decides
  which sections follow.
\<close>

datatype critical_section =
    Ingest pystr "trade list"
  | Drain pystr sink_outcome
  | SaveDone int
  | Stats

fun run_section ::
  "(int \<Rightarrow> pystr option) \<Rightarrow> critical_section \<Rightarrow> trade_row streamer \<Rightarrow> trade_row streamer" where
  "run_section strftime (Ingest skey ts) st = locked_process_trades strftime skey ts st"
| "run_section strftime (Drain skey outcome) st =
     (case save_symbol (\<lambda>_. outcome) skey st of Inl st' \<Rightarrow> st' | Inr st' \<Rightarrow> st')"
| "run_section strftime (SaveDone now) st = st\<lparr>last_save_time := now\<rparr>"
| "run_section strftime Stats st = st"

definition run_sections ::
  "(int \<Rightarrow> pystr option) \<Rightarrow> critical_section list \<Rightarrow> trade_row streamer \<Rightarrow> trade_row streamer" where
  "run_sections strftime ops st = foldl (\<lambda>st' op. run_section strftime op st') st ops"

subsection \<open>What an observer of one symbol sees\<close>

definition buffered :: "'r streamer \<Rightarrow> pystr \<Rightarrow> 'r list" where
  "buffered st skey = (case buffers st skey of None \<Rightarrow> [] | Some buf \<Rightarrow> buf)"

definition persisted :: "'r streamer \<Rightarrow> pystr \<Rightarrow> 'r list" where
  "persisted st skey = (case csv_files st skey of None \<Rightarrow> [] | Some rows \<Rightarrow> rows)"

definition counted :: "'r streamer \<Rightarrow> pystr \<Rightarrow> nat" where
  "counted st skey = (case totals st skey of None \<Rightarrow> 0 | Some n \<Rightarrow> n)"

text \<open>
  The batches the sections put in the symbol's file, one after the other: what each
  section adds to the file, a failed write included.
\<close>

fun drained_batches ::
  "(int \<Rightarrow> pystr option) \<Rightarrow> pystr \<Rightarrow> critical_section list \<Rightarrow> trade_row streamer
     \<Rightarrow> trade_row list list" where
  "drained_batches strftime skey [] st = []"
| "drained_batches strftime skey (op # ops) st =
     (let st' = run_section strftime op st;
          batch = drop (length (persisted st skey)) (persisted st' skey)
      in (if batch = [] then [] else [batch]) @ drained_batches strftime skey ops st')"

text \<open>
  The batches the sections take out of the symbol's buffer, one after the other: the
  content of the buffer before each section that leaves it empty.
\<close>

fun cleared_batches ::
  "(int \<Rightarrow> pystr option) \<Rightarrow> pystr \<Rightarrow> critical_section list \<Rightarrow> trade_row streamer
     \<Rightarrow> trade_row list list" where
  "cleared_batches strftime skey [] st = []"
| "cleared_batches strftime skey (op # ops) st =
     (let st' = run_section strftime op st;
          batch = (if buffered st' skey = [] then buffered st skey else [])
      in (if batch = [] then [] else [batch]) @ cleared_batches strftime skey ops st')"

text \<open>A section whose write, if it fails, fails before any row has reached the file.\<close>

fun writes_nothing_when_failing :: "critical_section \<Rightarrow> bool" where
  "writes_nothing_when_failing (Drain skey (Failed n)) = (n = 0)"
| "writes_nothing_when_failing _ = True"

text \<open>The records the sections append for the symbol, in the order of the appends.\<close>

fun appended_rows :: "(int \<Rightarrow> pystr option) \<Rightarrow> pystr \<Rightarrow> critical_section list \<Rightarrow> trade_row list" where
  "appended_rows strftime skey [] = []"
| "appended_rows strftime skey (Ingest k ts # ops) =
     (if k = skey then List.map_filter (trade_data_row strftime) ts else [])
       @ appended_rows strftime skey ops"
| "appended_rows strftime skey (Drain k outcome # ops) = appended_rows strftime skey ops"
| "appended_rows strftime skey (SaveDone now # ops) = appended_rows strftime skey ops"
| "appended_rows strftime skey (Stats # ops) = appended_rows strftime skey ops"

subsection \<open>The normalisation the specification describes\<close>

text \<open>Upper case of the ASCII letters of a symbol.\<close>

definition ascii_upper :: "pystr \<Rightarrow> pystr" where
  "ascii_upper s = map (\<lambda>c. if 97 \<le> c \<and> c \<le> 122 then c - 32 else c) s"

subsection \<open>States that have all their dictionary entries\<close>

text \<open>
  \<^verbatim>\<open>__init__\<close> creates the three dictionaries with exactly the symbols as keys, and no
  statement adds or removes a key afterwards.
\<close>

definition dicts_ok :: "'r streamer \<Rightarrow> bool" where
  "dicts_ok st =
     (dom (buffers st) = set (symbols st) \<and> dom (totals st) = set (symbols st) \<and>
      dom (csv_files st) = set (symbols st))"

text \<open>The state in which a block leaves the streamer, however it ends.\<close>

definition state_of :: "'r streamer + 'r streamer \<Rightarrow> 'r streamer" where
  "state_of outcome = (case outcome of Inl st \<Rightarrow> st | Inr st \<Rightarrow> st)"

section \<open>Sample values\<close>

text \<open>
  Concrete inputs on which the theorems below are exercised: a stand-in for the
  platform's date formatting that, like it, rejects timestamps after the year 9999, a
  decimal parser that knows a few strings, a validated trade, two runs of critical
  sections of the trade streamer, and a state with rows waiting in three buffers.
\<close>

definition sample_strftime :: "int \<Rightarrow> pystr option" where
  "sample_strftime ts =
     (if 0 \<le> ts \<and> ts < 253402300800000 then Some (str_of ''2024-01-01 00:00:00.000'') else None)"

definition sample_float :: "pystr \<Rightarrow> pyfloat option" where
  "sample_float s =
     (if s = str_of ''5.0'' then Some (Finite 5)
      else if s = str_of ''5.0005'' then Some (round_binary64 (50005 / 10000))
      else if s = str_of ''100.0'' then Some (Finite 100)
      else if s = str_of ''101.0'' then Some (Finite 101)
      else if s = str_of ''2.0'' then Some (Finite 2)
      else if s = str_of ''1.0'' then Some (Finite 1)
      else if s = str_of ''0.0'' then Some (Finite 0)
      else None)"

definition sample_trade :: "pystr \<Rightarrow> int \<Rightarrow> int \<Rightarrow> trade" where
  "sample_trade s ty ts =
     \<lparr>trade_price = Finite 100, trade_quantity = Finite 2, trade_type = ty,
      trade_symbol = s, trade_channel = str_of ''spot@public.aggre.deals.v3.api.pb@100ms'',
      trade_timestamp = ts\<rparr>"

definition sample_run :: "critical_section list" where
  "sample_run =
     [Ingest (str_of ''BTCUSDT'')
        [sample_trade (str_of ''BTCUSDT'') 1 1000, sample_trade (str_of ''BTCUSDT'') 2 2000],
      Drain (str_of ''BTCUSDT'') (Failed 0),
      Ingest (str_of ''ETHUSDT'') [sample_trade (str_of ''ETHUSDT'') 1 2500],
      Drain (str_of ''BTCUSDT'') Written,
      Stats,
      Ingest (str_of ''BTCUSDT'') [sample_trade (str_of ''BTCUSDT'') 1 3000],
      SaveDone 4000]"

text \<open>The same appends with a write that fails after the first of two rows.\<close>

definition sample_run_partial :: "critical_section list" where
  "sample_run_partial =
     [Ingest (str_of ''BTCUSDT'')
        [sample_trade (str_of ''BTCUSDT'') 1 1000, sample_trade (str_of ''BTCUSDT'') 2 2000],
      Drain (str_of ''BTCUSDT'') (Failed 1),
      Drain (str_of ''BTCUSDT'') Written]"

definition sample_state :: "nat streamer" where
  "sample_state =
     \<lparr>symbols = [str_of ''BTCUSDT'', str_of ''ETHUSDT'', str_of ''SOLUSDT''],
      buffers = [str_of ''BTCUSDT'' \<mapsto> [10], str_of ''ETHUSDT'' \<mapsto> [20, 21],
                 str_of ''SOLUSDT'' \<mapsto> [30]],
      totals = [str_of ''BTCUSDT'' \<mapsto> 1, str_of ''ETHUSDT'' \<mapsto> 2, str_of ''SOLUSDT'' \<mapsto> 1],
      csv_files = [str_of ''BTCUSDT'' \<mapsto> [], str_of ''ETHUSDT'' \<mapsto> [],
                   str_of ''SOLUSDT'' \<mapsto> []],
      last_save_time = 0,
      save_interval = 60\<rparr>"

definition sample_wrapper :: PushDataV3ApiWrapper where
  "sample_wrapper =
     \<lparr>channel = str_of ''spot@public.aggre.bookTicker.v3.api.pb@100ms'',
      symbol = str_of ''ETHUSDT'', sendTime = 1000, publicAggreDeals = None,
      publicAggreBookTicker =
        Some \<lparr>bidPrice = str_of ''100.0'', bidQuantity = str_of ''1.0'',
              askPrice = str_of ''101.0'', askQuantity = str_of ''1.0''\<rparr>\<rparr>"
section \<open>Properties of the decoder\<close>

subsection \<open>Bytes, keys and varints\<close>

lemma byte_low7: "unat ((b::byte) AND 0x7F) = unat b mod 128"
proof -
  have m: "(0x7F::byte) = mask 7" by (simp add: mask_eq_exp_minus_1)
  have "unat (b AND mask 7) = unat (take_bit 7 b)" by (simp add: take_bit_eq_mask)
  also have "\<dots> = take_bit 7 (unat b)" by (simp add: unsigned_take_bit_eq)
  also have "\<dots> = unat b mod 128" by (simp add: take_bit_eq_mod)
  finally show ?thesis using m by simp
qed

lemma byte_high: "((b::byte) AND 0x80 = 0) = (unat b < 128)"
proof -
  have "(b AND 0x80 = 0) = (\<not> bit b 7)"
    using and_exp_eq_0_iff_not_bit [of b 7] by simp
  also have "bit b 7 = bit (unat b) 7" by (simp add: bit_unsigned_iff)
  also have "\<dots> = odd (unat b div 128)" by (simp add: bit_iff_odd)
  finally have 1: "(b AND 0x80 = 0) = even (unat b div 128)" by simp
  have "unat b < 256" using unsigned_less [of b] by simp
  then have "even (unat b div 128) = (unat b < 128)"
    by (cases "unat b < 128") (simp_all add: div_eq_dividend_iff le_div_geq)
  with 1 show ?thesis by simp
qed

lemma or_push_bit_add:
  fixes r :: nat
  assumes "r < 2 ^ s" shows "r OR push_bit s x = r + x * 2 ^ s"
proof -
  have t: "take_bit s r = r" using assms by (simp add: take_bit_nat_eq_self)
  have "r + push_bit s x = r OR push_bit s x"
  proof (rule disjunctive_add)
    fix n
    have "bit r n = bit (take_bit s r) n" using t by simp
    then show "\<not> bit r n \<or> \<not> bit (push_bit s x) n"
      by (auto simp: bit_take_bit_iff bit_push_bit_iff)
  qed
  then show ?thesis by (simp add: push_bit_eq_mult)
qed

lemma key_wire: "w < 8 \<Longrightarrow> (f * 8 + w) AND (7::nat) = w"
proof -
  assume w: "w < 8"
  have m: "(7::nat) = mask 3" by (simp add: mask_eq_exp_minus_1)
  have "(f * 8 + w) AND mask 3 = take_bit 3 (f * 8 + w)" by (simp add: take_bit_eq_mask)
  also have "\<dots> = (f * 8 + w) mod 8" by (simp add: take_bit_eq_mod)
  also have "\<dots> = w" using w by simp
  finally show ?thesis using m by simp
qed

lemma key_num: "w < 8 \<Longrightarrow> drop_bit 3 (f * 8 + w :: nat) = f"
  by (simp add: drop_bit_eq_div)

lemma read_varint_loop_total:
  "\<exists>r p. read_varint_loop data pos res sh = Some (r, p) \<and> pos \<le> p
      \<and> (pos < length data \<longrightarrow> pos < p \<and> p \<le> length data)
      \<and> (length data \<le> pos \<longrightarrow> p = pos \<and> r = res)"
proof (induction "length data - pos" arbitrary: pos res sh rule: less_induct)
  case less
  show ?case
  proof (cases "pos < length data")
    case False
    then show ?thesis by (subst read_varint_loop.simps) simp
  next
    case True
    let ?b = "data ! pos"
    let ?r = "res OR push_bit sh (unat (?b AND 0x7F))"
    show ?thesis
    proof (cases "?b AND 0x80 = 0")
      case z: True
      show ?thesis using True z by (subst read_varint_loop.simps) (simp add: Let_def)
    next
      case nz: False
      have "length data - (pos + 1) < length data - pos" using True by simp
      from less [OF this, of ?r "sh + 7"]
      obtain r p where rp: "read_varint_loop data (pos + 1) ?r (sh + 7) = Some (r, p)"
        "pos + 1 \<le> p" "pos + 1 < length data \<longrightarrow> p \<le> length data"
        "length data \<le> pos + 1 \<longrightarrow> p = pos + 1" by blast
      have "read_varint_loop data pos res sh = Some (r, p)"
        using True nz rp(1) by (subst read_varint_loop.simps) (simp add: Let_def)
      moreover have "pos < p" using rp(2) by simp
      moreover have "p \<le> length data" using rp(3,4) True by (cases "pos + 1 < length data") auto
      ultimately show ?thesis using True by auto
    qed
  qed
qed

lemma read_varint_total:
  "\<exists>r p. read_varint data pos = Some (r, p) \<and> pos \<le> p
      \<and> (pos < length data \<longrightarrow> pos < p \<and> p \<le> length data)
      \<and> (length data \<le> pos \<longrightarrow> p = pos \<and> r = 0)"
  unfolding read_varint_def by (rule read_varint_loop_total)

text \<open>The value and the end position of a varint, whether or not the frame cuts it off.\<close>

lemma varint_bytes_end: "length data \<le> pos \<Longrightarrow> varint_bytes data pos = []"
  by (simp add: varint_bytes_def)

lemma varint_bytes_last:
  "pos < length data \<Longrightarrow> unat (data ! pos) < 128 \<Longrightarrow> varint_bytes data pos = [data ! pos]"
  by (simp add: varint_bytes_def Let_def Cons_nth_drop_Suc [symmetric])

lemma varint_bytes_more:
  "pos < length data \<Longrightarrow> 128 \<le> unat (data ! pos) \<Longrightarrow>
   varint_bytes data pos = data ! pos # varint_bytes data (pos + 1)"
  by (simp add: varint_bytes_def Let_def Cons_nth_drop_Suc [symmetric])

lemma varint_bytes_cut:
  "\<forall>b\<in>set (drop pos data). 128 \<le> unat b \<Longrightarrow> varint_bytes data pos = drop pos data"
  by (simp add: varint_bytes_def takeWhile_eq_all_conv [THEN iffD2])

lemma varint_bytes_length: "pos + length (varint_bytes data pos) \<le> max pos (length data)"
  by (simp add: varint_bytes_def Let_def)

lemma or_push_bit_group:
  fixes res :: nat
  assumes "low < 128"
  shows "(res OR push_bit sh low) OR push_bit (sh + 7) v = res OR push_bit sh (low + 128 * v)"
proof -
  have "low + 128 * v = low OR push_bit 7 v"
    using or_push_bit_add [of low 7 v] assms by simp
  then have "push_bit sh (low + 128 * v) = push_bit sh low OR push_bit (sh + 7) v"
    by (simp add: add.commute)
  then show ?thesis by (simp add: or.assoc)
qed

lemma read_varint_loop_value:
  "read_varint_loop data pos res sh
     = Some (res OR push_bit sh (varint_value (varint_bytes data pos)),
             pos + length (varint_bytes data pos))"
proof (induction "length data - pos" arbitrary: pos res sh rule: less_induct)
  case less
  show ?case
  proof (cases "pos < length data")
    case False
    then show ?thesis
      by (subst read_varint_loop.simps) (simp add: varint_bytes_end)
  next
    case True
    let ?b = "data ! pos"
    let ?r = "res OR push_bit sh (unat (?b AND 0x7F))"
    show ?thesis
    proof (cases "?b AND 0x80 = 0")
      case z: True
      then have "unat ?b < 128" by (simp only: byte_high)
      then have "varint_bytes data pos = [?b]" by (rule varint_bytes_last [OF True])
      then show ?thesis
        using True z by (subst read_varint_loop.simps) (simp add: Let_def byte_low7)
    next
      case nz: False
      then have "128 \<le> unat ?b" by (simp only: byte_high not_less)
      then have vb: "varint_bytes data pos = ?b # varint_bytes data (pos + 1)"
        by (rule varint_bytes_more [OF True])
      have "length data - (pos + 1) < length data - pos" using True by simp
      note ih = less [OF this, of ?r "sh + 7"]
      have low: "unat ?b mod 128 < 128" by simp
      have "read_varint_loop data pos res sh = read_varint_loop data (pos + 1) ?r (sh + 7)"
        using True nz by (subst read_varint_loop.simps) (simp add: Let_def)
      also have "\<dots> = Some (?r OR push_bit (sh + 7) (varint_value (varint_bytes data (pos + 1))),
             pos + 1 + length (varint_bytes data (pos + 1)))"
        by (rule ih)
      finally show ?thesis
        unfolding vb byte_low7 or_push_bit_group [OF low] by simp
    qed
  qed
qed

lemma read_varint_value:
  "read_varint data pos
     = Some (varint_value (varint_bytes data pos), pos + length (varint_bytes data pos))"
  unfolding read_varint_def read_varint_loop_value by simp

lemma read_field_header_total:
  "\<exists>f w p. read_field_header data pos = Some (f, w, p) \<and> pos \<le> p
      \<and> (pos < length data \<longrightarrow> pos < p)"
proof -
  from read_varint_total [of data pos] obtain r p where
    "read_varint data pos = Some (r, p)" "pos \<le> p" "pos < length data \<longrightarrow> pos < p" by blast
  then show ?thesis by (simp add: read_field_header_def)
qed

lemma read_string_total:
  "\<exists>s p. read_string data pos = Some (s, p) \<and> pos \<le> p"
proof -
  from read_varint_total [of data pos] obtain r p where
    "read_varint data pos = Some (r, p)" "pos \<le> p" by blast
  then show ?thesis by (auto simp: read_string_def Let_def split: option.splits)
qed

lemma skip_field_total:
  "\<exists>p. skip_field data pos w = Some p \<and> pos \<le> p"
proof -
  from read_varint_total [of data pos] obtain r p where
    "read_varint data pos = Some (r, p)" "pos \<le> p" by blast
  then show ?thesis by (auto simp: skip_field_def)
qed

lemma parse_field_total:
  "\<exists>self' p. parse_field self data f w pos = Some (self', p) \<and> pos \<le> p"
proof -
  from read_string_total [of data pos] obtain s p where
    s: "read_string data pos = Some (s, p)" "pos \<le> p" by blast
  from skip_field_total [of data pos w] obtain q where
    q: "skip_field data pos w = Some q" "pos \<le> q" by blast
  show ?thesis using s q by (simp add: parse_field_def)
qed

lemma parse_step_total:
  "\<exists>self' p. parse_step self data pos = Some (self', p) \<and> pos \<le> p
      \<and> (pos < length data \<longrightarrow> pos < p)"
proof -
  from read_field_header_total [of data pos] obtain f w p where
    h: "read_field_header data pos = Some (f, w, p)" "pos \<le> p" "pos < length data \<longrightarrow> pos < p"
    by blast
  from parse_field_total [of self data f w p] obtain self' q where
    q: "parse_field self data f w p = Some (self', q)" "p \<le> q" by blast
  show ?thesis using h q by (auto simp: parse_step_def)
qed

lemma parse_loop_total: "\<exists>r. parse_loop self data pos = Some r"
proof (induction "length data - pos" arbitrary: pos self rule: less_induct)
  case less
  show ?case
  proof (cases "pos < length data")
    case False
    then show ?thesis by (subst parse_loop.simps) simp
  next
    case True
    from parse_step_total [of self data pos] True obtain self' p where
      st: "parse_step self data pos = Some (self', p)" "pos < p" by blast
    have "length data - p < length data - pos" using True st(2) by simp
    from less [OF this, of self'] obtain r where "parse_loop self' data p = Some r" by blast
    then show ?thesis using True st(1) by (subst parse_loop.simps) simp
  qed
qed

lemma ParseFromString_total: "\<exists>self'. ParseFromString self data = Some (True, self')"
  using parse_loop_total [of self data 0] by (auto simp: ParseFromString_def)

lemma unat_byte_of_nat: "n < 256 \<Longrightarrow> unat (of_nat n :: byte) = n"
  by (simp add: unsigned_of_nat take_bit_nat_eq_self)

lemma encode_varint_nonempty: "encode_varint n \<noteq> []"
  by (subst encode_varint.simps) simp

lemma nth_append_length_pre: "(pre @ x # xs) ! length pre = x"
  by simp

lemma read_varint_loop_encode:
  "res < 2 ^ sh \<Longrightarrow>
   read_varint_loop (pre @ encode_varint n @ rest) (length pre) res sh
     = Some (res + n * 2 ^ sh, length pre + length (encode_varint n))"
proof (induction n arbitrary: pre res sh rule: encode_varint.induct)
  case (1 n)
  show ?case
  proof (cases "n < 128")
    case True
    let ?b = "of_nat n :: byte"
    have u: "unat ?b = n" using True by (simp add: unat_byte_of_nat)
    have hi: "?b AND 0x80 = 0" using u True by (simp add: byte_high)
    have lo: "unat (?b AND 0x7F) = n" using u True by (simp add: byte_low7)
    have enc: "encode_varint n = [?b]" using True by (subst encode_varint.simps) simp
    show ?thesis
      unfolding enc
      by (subst read_varint_loop.simps)
         (simp add: Let_def hi lo or_push_bit_add [OF "1.prems"])
  next
    case False
    define b :: byte where "b = of_nat (n mod 128 + 128)"
    have "n mod 128 + 128 < 256" by simp
    then have u: "unat b = n mod 128 + 128" unfolding b_def by (rule unat_byte_of_nat)
    have hi: "b AND 0x80 \<noteq> 0" using u by (simp add: byte_high)
    have lo: "unat (b AND 0x7F) = n mod 128" using u by (simp add: byte_low7)
    have enc: "encode_varint n = b # encode_varint (n div 128)"
      using False unfolding b_def by (subst encode_varint.simps) simp
    let ?res = "res + (n mod 128) * 2 ^ sh"
    have bound: "?res < 2 ^ (sh + 7)"
    proof -
      have "(n mod 128) * 2 ^ sh \<le> 127 * 2 ^ sh" by (simp add: less_Suc_eq_le)
      then have "?res < 2 ^ sh + 127 * 2 ^ sh" using "1.prems" by linarith
      also have "\<dots> = 2 ^ (sh + 7)" by (simp add: power_add)
      finally show ?thesis .
    qed
    have ih: "read_varint_loop ((pre @ [b]) @ encode_varint (n div 128) @ rest)
                (length (pre @ [b])) ?res (sh + 7)
              = Some (?res + (n div 128) * 2 ^ (sh + 7),
                      length (pre @ [b]) + length (encode_varint (n div 128)))"
      by (rule "1.IH" [OF False bound])
    have val: "?res + (n div 128) * 2 ^ (sh + 7) = res + n * 2 ^ sh"
    proof -
      have e1: "(n div 128) * 128 + n mod 128 = n" by simp
      have e2: "(n div 128) * 128 * 2 ^ sh = (n div 128) * 2 ^ (sh + 7)"
        by (simp add: power_add)
      have "n * 2 ^ sh = ((n div 128) * 128 + n mod 128) * 2 ^ sh" by (simp only: e1)
      also have "\<dots> = (n div 128) * 128 * 2 ^ sh + (n mod 128) * 2 ^ sh"
        by (rule distrib_right)
      finally show ?thesis unfolding e2 by linarith
    qed
    have step: "read_varint_loop (pre @ (b # encode_varint (n div 128)) @ rest) (length pre) res sh
          = read_varint_loop ((pre @ [b]) @ encode_varint (n div 128) @ rest)
                (length (pre @ [b])) ?res (sh + 7)"
      by (subst read_varint_loop.simps)
         (simp add: Let_def hi lo or_push_bit_add [OF "1.prems"])
    show ?thesis unfolding enc step ih val by simp
  qed
qed

lemma read_varint_encode:
  "read_varint (pre @ encode_varint n @ rest) (length pre)
     = Some (n, length pre + length (encode_varint n))"
  unfolding read_varint_def using read_varint_loop_encode [of 0 0 pre n rest] by simp

lemma dec1:
  "unat b0 < 0x80 \<Longrightarrow> utf8_decode (b0 # bs) = map_option (Cons (unat b0)) (utf8_decode bs)"
  by simp

lemma dec2:
  "unat b0 = 0xC0 + h \<Longrightarrow> 2 \<le> h \<Longrightarrow> h < 32 \<Longrightarrow> unat b1 = 0x80 + l \<Longrightarrow> l < 64 \<Longrightarrow>
   utf8_decode (b0 # b1 # bs) = map_option (Cons (h * 64 + l)) (utf8_decode bs)"
  by (simp add: is_cont_def Let_def)

lemma dec3:
  "unat b0 = 0xE0 + h \<Longrightarrow> h < 16 \<Longrightarrow> unat b1 = 0x80 + m \<Longrightarrow> m < 64 \<Longrightarrow>
   unat b2 = 0x80 + l \<Longrightarrow> l < 64 \<Longrightarrow> cp = h * 4096 + m * 64 + l \<Longrightarrow>
   0x800 \<le> cp \<Longrightarrow> \<not> (0xD800 \<le> cp \<and> cp \<le> 0xDFFF) \<Longrightarrow>
   utf8_decode (b0 # b1 # b2 # bs) = map_option (Cons cp) (utf8_decode bs)"
  by (simp add: is_cont_def Let_def)

lemma dec4:
  "unat b0 = 0xF0 + h \<Longrightarrow> h < 5 \<Longrightarrow> unat b1 = 0x80 + m1 \<Longrightarrow> m1 < 64 \<Longrightarrow>
   unat b2 = 0x80 + m2 \<Longrightarrow> m2 < 64 \<Longrightarrow>
   unat b3 = 0x80 + l \<Longrightarrow> l < 64 \<Longrightarrow> cp = h * 262144 + m1 * 4096 + m2 * 64 + l \<Longrightarrow>
   0x10000 \<le> cp \<Longrightarrow> cp \<le> 0x10FFFF \<Longrightarrow>
   utf8_decode (b0 # b1 # b2 # b3 # bs) = map_option (Cons cp) (utf8_decode bs)"
  by (simp add: is_cont_def Let_def)

lemma split64: "(cp::nat) div 64 * 64 + cp mod 64 = cp"
  by simp

lemma split4096: "(cp::nat) div 4096 * 4096 + cp div 64 mod 64 * 64 + cp mod 64 = cp"
proof -
  define d q r l where "d = cp div 64" and "q = d div 64" and "r = d mod 64" and "l = cp mod 64"
  have a: "cp = d * 64 + l" unfolding d_def l_def by simp
  have b: "d = q * 64 + r" unfolding q_def r_def by simp
  have c: "cp div 4096 = q" unfolding q_def d_def by (simp add: div_mult2_eq)
  have "q * 4096 + r * 64 + l = cp" unfolding a b by (simp add: algebra_simps)
  then show ?thesis unfolding c [symmetric] r_def d_def l_def .
qed

lemma split262144:
  "(cp::nat) div 262144 * 262144 + cp div 4096 mod 64 * 4096 + cp div 64 mod 64 * 64 + cp mod 64 = cp"
proof -
  define e q r where "e = cp div 4096" and "q = e div 64" and "r = e mod 64"
  have b: "e = q * 64 + r" unfolding q_def r_def by simp
  have c: "cp div 262144 = q" unfolding q_def e_def by (simp add: div_mult2_eq)
  have "q * 262144 + r * 4096 = e * 4096" unfolding b by (simp add: algebra_simps)
  then have "cp div 262144 * 262144 + cp div 4096 mod 64 * 4096 = cp div 4096 * 4096"
    unfolding c [symmetric] r_def e_def .
  then show ?thesis using split4096 [of cp] by linarith
qed

lemma utf8_cp_roundtrip:
  assumes v: "valid_code_point cp"
  shows "utf8_decode (utf8_encode_cp cp @ bs) = map_option (Cons cp) (utf8_decode bs)"
proof -
  have l64: "cp mod 64 < 64" by simp
  have m64: "cp div 64 mod 64 < 64" by simp
  have n64: "cp div 4096 mod 64 < 64" by simp
  consider (a) "cp < 0x80" | (b) "0x80 \<le> cp" "cp < 0x800" | (c) "0x800 \<le> cp" "cp < 0x10000"
    | (d) "0x10000 \<le> cp" by linarith
  then show ?thesis
  proof cases
    case a
    define b0 :: byte where "b0 = of_nat cp"
    have "cp < 256" using a by simp
    then have u: "unat b0 = cp" unfolding b0_def by (rule unat_byte_of_nat)
    have e: "utf8_encode_cp cp = [b0]" using a by (simp add: utf8_encode_cp_def b0_def)
    show ?thesis unfolding e using dec1 [of b0 bs] a u by simp
  next
    case b
    define h l where "h = cp div 64" and "l = cp mod 64"
    define b0 b1 :: byte where "b0 = of_nat (0xC0 + h)" and "b1 = of_nat (0x80 + l)"
    have hl: "2 \<le> h" "h < 32" "l < 64"
      using b div_le_mono [of 128 cp 64] less_mult_imp_div_less [of cp 32 64]
      by (simp_all add: h_def l_def)
    have "0xC0 + h < 256" "0x80 + l < 256" using hl by simp_all
    then have u: "unat b0 = 0xC0 + h" "unat b1 = 0x80 + l"
      unfolding b0_def b1_def by (simp_all only: unat_byte_of_nat)
    have e: "utf8_encode_cp cp = [b0, b1]"
      using b by (simp add: utf8_encode_cp_def b0_def b1_def h_def l_def)
    have cp: "h * 64 + l = cp" unfolding h_def l_def by simp
    show ?thesis unfolding e using dec2 [OF u(1) hl(1,2) u(2) hl(3), of bs] cp by simp
  next
    case c
    define h m l where "h = cp div 4096" and "m = cp div 64 mod 64" and "l = cp mod 64"
    define b0 b1 b2 :: byte where "b0 = of_nat (0xE0 + h)" and "b1 = of_nat (0x80 + m)"
      and "b2 = of_nat (0x80 + l)"
    have hl: "h < 16" "m < 64" "l < 64"
      using c less_mult_imp_div_less [of cp 16 4096] by (simp_all add: h_def m_def l_def)
    have "0xE0 + h < 256" "0x80 + m < 256" "0x80 + l < 256" using hl by simp_all
    then have u: "unat b0 = 0xE0 + h" "unat b1 = 0x80 + m" "unat b2 = 0x80 + l"
      unfolding b0_def b1_def b2_def by (simp_all only: unat_byte_of_nat)
    have e: "utf8_encode_cp cp = [b0, b1, b2]"
      using c by (simp add: utf8_encode_cp_def b0_def b1_def b2_def h_def m_def l_def)
    have cp: "cp = h * 4096 + m * 64 + l" unfolding h_def m_def l_def by (simp only: split4096)
    have ns: "\<not> (0xD800 \<le> cp \<and> cp \<le> 0xDFFF)" using v by (simp add: valid_code_point_def)
    show ?thesis unfolding e
      using dec3 [OF u(1) hl(1) u(2) hl(2) u(3) hl(3) cp c(1) ns, of bs] by simp
  next
    case d
    define h m1 m2 l where "h = cp div 262144" and "m1 = cp div 4096 mod 64"
      and "m2 = cp div 64 mod 64" and "l = cp mod 64"
    define b0 b1 b2 b3 :: byte where "b0 = of_nat (0xF0 + h)" and "b1 = of_nat (0x80 + m1)"
      and "b2 = of_nat (0x80 + m2)" and "b3 = of_nat (0x80 + l)"
    have lim: "cp < 0x110000" using v by (simp add: valid_code_point_def)
    have hl: "h < 5" "m1 < 64" "m2 < 64" "l < 64"
      using lim less_mult_imp_div_less [of cp 5 262144]
      by (simp_all add: h_def m1_def m2_def l_def)
    have "0xF0 + h < 256" "0x80 + m1 < 256" "0x80 + m2 < 256" "0x80 + l < 256"
      using hl by simp_all
    then have u: "unat b0 = 0xF0 + h" "unat b1 = 0x80 + m1" "unat b2 = 0x80 + m2"
      "unat b3 = 0x80 + l"
      unfolding b0_def b1_def b2_def b3_def by (simp_all only: unat_byte_of_nat)
    have e: "utf8_encode_cp cp = [b0, b1, b2, b3]"
      using d by (simp add: utf8_encode_cp_def b0_def b1_def b2_def b3_def h_def m1_def m2_def l_def)
    have cp: "cp = h * 262144 + m1 * 4096 + m2 * 64 + l"
      unfolding h_def m1_def m2_def l_def by (simp only: split262144)
    have le: "cp \<le> 0x10FFFF" using lim by simp
    show ?thesis unfolding e
      using dec4 [OF u(1) hl(1) u(2) hl(2) u(3) hl(3) u(4) hl(4) cp d le, of bs] by simp
  qed
qed

lemma utf8_roundtrip:
  "list_all valid_code_point s \<Longrightarrow> utf8_decode (utf8_encode s) = Some s"
proof (induction s)
  case Nil
  show ?case by (simp add: utf8_encode_def)
next
  case (Cons cp s)
  have e: "utf8_encode (cp # s) = utf8_encode_cp cp @ utf8_encode s"
    by (simp add: utf8_encode_def)
  show ?case unfolding e using Cons by (simp add: utf8_cp_roundtrip)
qed

lemma key_value: "w < 8 \<Longrightarrow> push_bit 3 f OR w = f * 8 + (w::nat)"
  using or_push_bit_add [of w 3 f] by (simp add: or.commute add.commute)

lemma read_field_header_encode:
  assumes "w < 8"
  shows "read_field_header (pre @ encode_key f w @ rest) (length pre)
           = Some (f, w, length pre + length (encode_key f w))"
  unfolding read_field_header_def encode_key_def key_value [OF assms]
  by (simp add: read_varint_encode key_wire [OF assms] key_num [OF assms])

lemma read_string_encode:
  "read_string (pre @ encode_varint (length bs) @ bs @ rest) (length pre)
     = Some (case utf8_decode bs of Some s \<Rightarrow> s | None \<Rightarrow> [],
             length pre + length (encode_varint (length bs)) + length bs)"
proof -
  let ?e = "encode_varint (length bs)"
  have rv: "read_varint (pre @ ?e @ bs @ rest) (length pre) = Some (length bs, length pre + length ?e)"
    by (rule read_varint_encode)
  have sl: "take (length bs) (drop (length pre + length ?e) (pre @ ?e @ bs @ rest)) = bs"
    by simp
  show ?thesis
    unfolding read_string_def rv
    by (simp add: sl Let_def split: option.splits del: drop_append take_append)
qed

lemma skip_varint_encode:
  "skip_field (pre @ encode_varint v @ rest) (length pre) 0
     = Some (length pre + length (encode_varint v))"
  by (simp add: skip_field_def read_varint_encode)

lemma skip_bytes_encode:
  "skip_field (pre @ encode_varint (length bs) @ bs @ rest) (length pre) 2
     = Some (length pre + length (encode_varint (length bs)) + length bs)"
  by (simp add: skip_field_def read_varint_encode)

lemma parse_step_encode:
  assumes "valid_field fld"
  shows "parse_step self (pre @ encode_field fld @ rest) (length pre)
           = Some (store_field self fld, length pre + length (encode_field fld))"
proof (cases fld)
  case (StringField f s)
  let ?k = "encode_key f 2"
  have v: "1 \<le> f" "f \<le> 4" "utf8_decode (utf8_encode s) = Some s"
    using assms StringField by (simp_all add: utf8_roundtrip)
  have h: "read_field_header (pre @ ?k @ (encode_varint (length (utf8_encode s)) @ utf8_encode s @ rest))
             (length pre) = Some (f, 2, length pre + length ?k)"
    by (rule read_field_header_encode) simp
  have s: "read_string ((pre @ ?k) @ encode_varint (length (utf8_encode s)) @ utf8_encode s @ rest)
             (length (pre @ ?k))
           = Some (s, length (pre @ ?k) + length (encode_varint (length (utf8_encode s)))
                      + length (utf8_encode s))"
    using read_string_encode [of "pre @ ?k" "utf8_encode s" rest] v(3) by simp
  have f: "f = 1 \<or> f = 2 \<or> f = 3 \<or> f = 4" using v(1,2) by linarith
  show ?thesis
    using h s f unfolding StringField parse_step_def parse_field_def
    by (auto simp: add.assoc)
next
  case (VarintField f v)
  let ?k = "encode_key f 0"
  have nf: "f \<noteq> 1" "f \<noteq> 2" "f \<noteq> 3" "f \<noteq> 4" using assms VarintField by simp_all
  have h: "read_field_header (pre @ ?k @ (encode_varint v @ rest)) (length pre)
             = Some (f, 0, length pre + length ?k)"
    by (rule read_field_header_encode) simp
  have s: "skip_field ((pre @ ?k) @ encode_varint v @ rest) (length (pre @ ?k)) 0
             = Some (length (pre @ ?k) + length (encode_varint v))"
    by (rule skip_varint_encode)
  show ?thesis
    using h s nf unfolding VarintField parse_step_def parse_field_def
    by (simp add: add.assoc)
next
  case (Fixed64Field f bs)
  let ?k = "encode_key f 1"
  have nf: "f \<noteq> 1" "f \<noteq> 2" "f \<noteq> 3" "f \<noteq> 4" "length bs = 8"
    using assms Fixed64Field by simp_all
  have h: "read_field_header (pre @ ?k @ (bs @ rest)) (length pre)
             = Some (f, 1, length pre + length ?k)"
    by (rule read_field_header_encode) simp
  show ?thesis
    using h nf unfolding Fixed64Field parse_step_def parse_field_def
    by (simp add: skip_field_def)
next
  case (BytesField f bs)
  let ?k = "encode_key f 2"
  have nf: "f \<noteq> 1" "f \<noteq> 2" "f \<noteq> 3" "f \<noteq> 4" using assms BytesField by simp_all
  have h: "read_field_header (pre @ ?k @ (encode_varint (length bs) @ bs @ rest)) (length pre)
             = Some (f, 2, length pre + length ?k)"
    by (rule read_field_header_encode) simp
  have s: "skip_field ((pre @ ?k) @ encode_varint (length bs) @ bs @ rest) (length (pre @ ?k)) 2
             = Some (length (pre @ ?k) + length (encode_varint (length bs)) + length bs)"
    by (rule skip_bytes_encode)
  show ?thesis
    using h s nf unfolding BytesField parse_step_def parse_field_def
    by (simp add: add.assoc)
next
  case (Fixed32Field f bs)
  let ?k = "encode_key f 5"
  have nf: "f \<noteq> 1" "f \<noteq> 2" "f \<noteq> 3" "f \<noteq> 4" "length bs = 4"
    using assms Fixed32Field by simp_all
  have h: "read_field_header (pre @ ?k @ (bs @ rest)) (length pre)
             = Some (f, 5, length pre + length ?k)"
    by (rule read_field_header_encode) simp
  show ?thesis
    using h nf unfolding Fixed32Field parse_step_def parse_field_def
    by (simp add: skip_field_def)
qed

lemma encode_field_nonempty: "encode_field fld \<noteq> []"
  by (cases fld) (simp_all add: encode_key_def encode_varint_nonempty)

lemma parse_loop_encode:
  "list_all valid_field fs \<Longrightarrow>
   parse_loop self (pre @ encode_frame fs) (length pre) = Some (foldl store_field self fs)"
proof (induction fs arbitrary: self pre)
  case Nil
  show ?case by (subst parse_loop.simps) (simp add: encode_frame_def)
next
  case (Cons fld fs)
  have v: "valid_field fld" "list_all valid_field fs" using Cons.prems by simp_all
  have fr: "encode_frame (fld # fs) = encode_field fld @ encode_frame fs"
    by (simp add: encode_frame_def)
  have lt: "length pre < length (pre @ encode_field fld @ encode_frame fs)"
    using encode_field_nonempty [of fld] by simp
  have st: "parse_step self (pre @ encode_field fld @ encode_frame fs) (length pre)
              = Some (store_field self fld, length (pre @ encode_field fld))"
    using parse_step_encode [OF v(1), of self pre "encode_frame fs"] by simp
  have ih: "parse_loop (store_field self fld) ((pre @ encode_field fld) @ encode_frame fs)
              (length (pre @ encode_field fld)) = Some (foldl store_field (store_field self fld) fs)"
    by (rule Cons.IH [OF v(2)])
  have "parse_loop self (pre @ encode_field fld @ encode_frame fs) (length pre)
          = parse_loop (store_field self fld) ((pre @ encode_field fld) @ encode_frame fs)
              (length (pre @ encode_field fld))"
    by (subst parse_loop.simps) (simp only: lt if_True st bind.bind_lunit case_prod_conv append_assoc)
  then show ?case unfolding fr ih by simp
qed

lemma ParseFromString_encode:
  "list_all valid_field fs \<Longrightarrow>
   ParseFromString self (encode_frame fs) = Some (True, foldl store_field self fs)"
  using parse_loop_encode [of fs self "[]"] by (simp add: ParseFromString_def)
subsection \<open>Termination, truncated frames and encoded frames\<close>

lemmas decoder_eval =
  ParseFromString_def parse_loop.simps parse_step_def parse_field_def read_field_header_def
  read_string_def skip_field_def read_varint_def read_varint_loop.simps init_book_ticker_def
  is_cont_def Let_def

text \<open>
  Claim C9. For every input byte sequence \<open>ParseFromString\<close> returns: a run of the
  decoding loop that never ends would be the value \<open>None\<close>, and there is none. Every
  iteration started at a position inside the frame ends at a strictly greater position,
  because the varint of the field header consumes at least one byte there, whatever
  field number and wire type it carries.
\<close>

theorem ParseFromString_terminates:
  "(\<exists>r. ParseFromString self data = Some r) \<and>
   (pos < length data \<longrightarrow>
      (\<exists>f w p. read_field_header data pos = Some (f, w, p) \<and> pos < p) \<and>
      (\<exists>self' p. parse_step self data pos = Some (self', p) \<and> pos < p))"
proof -
  have "\<exists>r. ParseFromString self data = Some r"
    using ParseFromString_total [of self data] by blast
  moreover have "pos < length data \<longrightarrow>
      (\<exists>f w p. read_field_header data pos = Some (f, w, p) \<and> pos < p)"
    using read_field_header_total [of data pos] by blast
  moreover have "pos < length data \<longrightarrow>
      (\<exists>self' p. parse_step self data pos = Some (self', p) \<and> pos < p)"
    using parse_step_total [of self data pos] by blast
  ultimately show ?thesis by blast
qed

theorem ParseFromString_terminates_witness:
  "(0::nat) < length [0x3B, 0x01, 0x31 :: byte] \<and>
   (\<exists>r. ParseFromString init_book_ticker [0x3B, 0x01, 0x31] = Some r) \<and>
   (\<exists>f w p. read_field_header [0x3B, 0x01, 0x31] 0 = Some (f, w, p) \<and> 0 < p) \<and>
   (\<exists>self' p. parse_step init_book_ticker [0x3B, 0x01, 0x31] 0 = Some (self', p) \<and> 0 < p)"
  using ParseFromString_terminates [of init_book_ticker "[0x3B, 0x01, 0x31]" 0] by simp

text \<open>
  Claim C2, as stated, fails. In the frame below the second field announces a
  payload of five bytes where one byte is left, yet \<open>ParseFromString\<close> reports success:
  it keeps the quantity decoded before and puts the empty string in place of the
  truncated price.
\<close>

theorem truncated_frame_counterexample:
  "read_varint [0x12, 0x01, 0x37, 0x0A, 0x05, 0x31] 4 = Some (5, 5) \<and>
   length [0x12, 0x01, 0x37, 0x0A, 0x05, 0x31 :: byte] < 5 + 5 \<and>
   ParseFromString (init_book_ticker\<lparr>bidPrice := [0x39]\<rparr>) [0x12, 0x01, 0x37, 0x0A, 0x05, 0x31]
     = Some (True, \<lparr>bidPrice = [], bidQuantity = [0x37], askPrice = [], askQuantity = []\<rparr>)"
  by (simp add: decoder_eval)

text \<open>
  Claim C2, amended. Decoding never fails on a frame that ends early: for every byte
  sequence \<open>ParseFromString\<close> returns \<open>True\<close>. A varint read at any position yields the
  value of the bytes it occupies, which end at the frame boundary at the latest; so a
  varint cut off by the boundary, all bytes up to the boundary having the high bit set,
  yields the value of the bytes read so far and leaves the position at the boundary, and
  one that starts at the boundary yields 0. A length-delimited payload of a known field
  that would read past the boundary yields the empty string, with the position left
  after the length varint. So a truncated frame is accepted with partial or substituted
  values, and no error reaches the caller.
\<close>

theorem truncated_frame_is_accepted:
  "(\<exists>self'. ParseFromString self data = Some (True, self')) \<and>
   read_varint data pos
     = Some (varint_value (varint_bytes data pos), pos + length (varint_bytes data pos)) \<and>
   pos + length (varint_bytes data pos) \<le> max pos (length data) \<and>
   ((\<forall>b\<in>set (drop pos data). 128 \<le> unat b) \<longrightarrow>
      read_varint data pos = Some (varint_value (drop pos data), max pos (length data))) \<and>
   (length data \<le> pos \<longrightarrow> read_varint data pos = Some (0, pos)) \<and>
   (read_varint data pos = Some (len, pos') \<and> length data < pos' + len \<longrightarrow>
      read_string data pos = Some ([], pos'))"
proof -
  have a: "\<exists>self'. ParseFromString self data = Some (True, self')"
    by (rule ParseFromString_total)
  have b: "read_varint data pos
     = Some (varint_value (varint_bytes data pos), pos + length (varint_bytes data pos))"
    by (rule read_varint_value)
  have c: "pos + length (varint_bytes data pos) \<le> max pos (length data)"
    by (rule varint_bytes_length)
  have d: "(\<forall>b\<in>set (drop pos data). 128 \<le> unat b) \<longrightarrow>
      read_varint data pos = Some (varint_value (drop pos data), max pos (length data))"
  proof
    assume "\<forall>b\<in>set (drop pos data). 128 \<le> unat b"
    then have "varint_bytes data pos = drop pos data" by (rule varint_bytes_cut)
    then show "read_varint data pos = Some (varint_value (drop pos data), max pos (length data))"
      unfolding b by (simp add: max_def)
  qed
  have e: "length data \<le> pos \<longrightarrow> read_varint data pos = Some (0, pos)"
    unfolding b by (simp add: varint_bytes_end)
  have f: "read_varint data pos = Some (len, pos') \<and> length data < pos' + len \<longrightarrow>
      read_string data pos = Some ([], pos')"
    by (simp add: read_string_def)
  show ?thesis using a b c d e f by blast
qed

theorem truncated_frame_is_accepted_witness:
  "length [0x0A, 0x05, 0x31 :: byte] \<le> 3 \<and>
   read_varint [0x0A, 0x05, 0x31] 3 = Some (0, 3) \<and>
   read_varint [0x0A, 0x05, 0x31] 1 = Some (5, 2) \<and>
   length [0x0A, 0x05, 0x31 :: byte] < 2 + 5 \<and>
   read_string [0x0A, 0x05, 0x31] 1 = Some ([], 2) \<and>
   (\<exists>self'. ParseFromString init_book_ticker [0x0A, 0x05, 0x31] = Some (True, self')) \<and>
   list_all (\<lambda>b. 128 \<le> unat b) (drop 1 [0x0A, 0xFF, 0x81 :: byte]) \<and>
   varint_value (drop 1 [0x0A, 0xFF, 0x81 :: byte]) = 255 \<and>
   read_varint [0x0A, 0xFF, 0x81] 1 = Some (255, 3)"
proof -
  have v: "read_varint [0x0A, 0x05, 0x31] 1 = Some (5, 2)"
    by (simp add: decoder_eval)
  have h: "\<forall>b\<in>set (drop 1 [0x0A, 0xFF, 0x81 :: byte]). 128 \<le> unat b"
    by simp
  have n: "varint_value (drop 1 [0x0A, 0xFF, 0x81 :: byte]) = 255"
    by simp
  from truncated_frame_is_accepted [of init_book_ticker "[0x0A, 0xFF, 0x81]" 1 0 0]
  have "(\<forall>b\<in>set (drop 1 [0x0A, 0xFF, 0x81 :: byte]). 128 \<le> unat b) \<longrightarrow>
      read_varint [0x0A, 0xFF, 0x81] 1
        = Some (varint_value (drop 1 [0x0A, 0xFF, 0x81]), max 1 (length [0x0A, 0xFF, 0x81 :: byte]))"
    by blast
  with h have "read_varint [0x0A, 0xFF, 0x81] 1
        = Some (varint_value (drop 1 [0x0A, 0xFF, 0x81]), max 1 (length [0x0A, 0xFF, 0x81 :: byte]))"
    by blast
  then have c: "read_varint [0x0A, 0xFF, 0x81] 1 = Some (255, 3)"
    unfolding n by simp
  have l: "list_all (\<lambda>b. 128 \<le> unat b) (drop 1 [0x0A, 0xFF, 0x81 :: byte])"
    by simp
  show ?thesis
    using truncated_frame_is_accepted [of init_book_ticker "[0x0A, 0x05, 0x31]" 3 5 2]
      truncated_frame_is_accepted [of init_book_ticker "[0x0A, 0x05, 0x31]" 1 5 2] v l n c
    by simp
qed

text \<open>
  Claim C3. A frame built by the reference encoder over the book-ticker schema, from
  any sequence of fields (strings for the numbers 1 to 4; varint, 8-byte,
  length-delimited or 4-byte payloads for numbers from 5 on), is decoded to exactly the
  encoded values: \<open>ParseFromString\<close> returns \<open>True\<close> and leaves each of the four attributes
  at the last string encoded for it, or untouched when the frame has none. Each field,
  known or unknown, moves the position by exactly its encoded length, wherever it stands
  in the frame, so the fields after an unknown one are read at the right offset.
\<close>

theorem ParseFromString_recovers_encoded_fields:
  assumes "list_all valid_field fs" and "valid_field fld"
  shows "ParseFromString self (encode_frame fs) = Some (True, foldl store_field self fs) \<and>
         parse_step self (pre @ encode_field fld @ rest) (length pre)
           = Some (store_field self fld, length pre + length (encode_field fld))"
  using ParseFromString_encode [OF assms(1)] parse_step_encode [OF assms(2)] by simp

theorem ParseFromString_recovers_encoded_fields_witness:
  "list_all valid_field
     [StringField 1 [0x31, 0xE9], VarintField 7 300, Fixed64Field 8 [1, 2, 3, 4, 5, 6, 7, 8],
      BytesField 9 [0x0A, 0xFF], StringField 4 [0x1F600]] \<and>
   valid_field (Fixed32Field 6 [1, 2, 3, 4]) \<and>
   ParseFromString init_book_ticker
     (encode_frame
        [StringField 1 [0x31, 0xE9], VarintField 7 300, Fixed64Field 8 [1, 2, 3, 4, 5, 6, 7, 8],
         BytesField 9 [0x0A, 0xFF], StringField 4 [0x1F600]])
     = Some (True, \<lparr>bidPrice = [0x31, 0xE9], bidQuantity = [], askPrice = [],
                     askQuantity = [0x1F600]\<rparr>) \<and>
   parse_step init_book_ticker ([0x0A, 0x00] @ encode_field (Fixed32Field 6 [1, 2, 3, 4]) @ [0x12])
       (length [0x0A, 0x00 :: byte])
     = Some (init_book_ticker, length [0x0A, 0x00 :: byte] + length (encode_field (Fixed32Field 6 [1, 2, 3, 4])))"
  using ParseFromString_recovers_encoded_fields
     [of "[StringField 1 [0x31, 0xE9], VarintField 7 300, Fixed64Field 8 [1, 2, 3, 4, 5, 6, 7, 8],
           BytesField 9 [0x0A, 0xFF], StringField 4 [0x1F600]]"
         "Fixed32Field 6 [1, 2, 3, 4]" init_book_ticker "[0x0A, 0x00]" "[0x12]"]
  by (simp add: valid_code_point_def init_book_ticker_def)

section \<open>Properties of the buffers\<close>

subsection \<open>States and their views\<close>

lemma dicts_ok_keys:
  assumes "dicts_ok st" and "k \<in> set (symbols st)"
  shows "buffers st k = Some (buffered st k)" and "totals st k = Some (counted st k)"
    and "csv_files st k = Some (persisted st k)"
proof -
  from assms have "k \<in> dom (buffers st)" "k \<in> dom (totals st)" "k \<in> dom (csv_files st)"
    by (simp_all add: dicts_ok_def)
  then show "buffers st k = Some (buffered st k)" and "totals st k = Some (counted st k)"
    and "csv_files st k = Some (persisted st k)"
    by (auto simp: buffered_def counted_def persisted_def)
qed

lemma dicts_ok_no_key:
  assumes "dicts_ok st" and "k \<notin> set (symbols st)"
  shows "buffers st k = None" and "totals st k = None" and "csv_files st k = None"
  using assms by (auto simp: dicts_ok_def)

lemma dicts_ok_init: "dicts_ok (init_streamer upper syms now interval)"
  by (auto simp: dicts_ok_def init_streamer_def dom_map_of_conv_image_fst image_image)

lemma map_of_const:
  "map_of (map (\<lambda>s. (s, c)) ks) k = (if k \<in> set ks then Some c else None)"
  by (induction ks) auto

lemma init_views:
  "buffered (init_streamer upper syms now interval) k = []"
  "persisted (init_streamer upper syms now interval) k = []"
  "counted (init_streamer upper syms now interval) k = 0"
  "symbols (init_streamer upper syms now interval) = map upper syms"
  by (simp_all add: buffered_def persisted_def counted_def init_streamer_def map_of_const
      del: map_map)

subsection \<open>Appending a row\<close>

lemma append_row_known:
  assumes "dicts_ok st" and "k \<in> set (symbols st)"
  shows "append_row k r st
           = st\<lparr>buffers := (buffers st)(k \<mapsto> buffered st k @ [r]),
                totals := (totals st)(k \<mapsto> counted st k + 1)\<rparr>"
  using dicts_ok_keys [OF assms] by (simp add: append_row_def Let_def)

lemma append_row_unknown:
  assumes "dicts_ok st" and "k \<notin> set (symbols st)"
  shows "append_row k r st = st"
  using dicts_ok_no_key [OF assms] by (simp add: append_row_def)

lemma append_row_views:
  assumes "dicts_ok st"
  shows "buffered (append_row k r st) k'
           = buffered st k' @ (if k' = k \<and> k \<in> set (symbols st) then [r] else [])"
    and "counted (append_row k r st) k'
           = counted st k' + (if k' = k \<and> k \<in> set (symbols st) then 1 else 0)"
    and "persisted (append_row k r st) k' = persisted st k'"
    and "symbols (append_row k r st) = symbols st"
    and "dicts_ok (append_row k r st)"
    and "last_save_time (append_row k r st) = last_save_time st"
proof -
  show "buffered (append_row k r st) k'
           = buffered st k' @ (if k' = k \<and> k \<in> set (symbols st) then [r] else [])"
    by (cases "k \<in> set (symbols st)")
       (simp_all add: append_row_known append_row_unknown assms buffered_def)
  show "counted (append_row k r st) k'
           = counted st k' + (if k' = k \<and> k \<in> set (symbols st) then 1 else 0)"
    by (cases "k \<in> set (symbols st)")
       (simp_all add: append_row_known append_row_unknown assms counted_def)
  show "persisted (append_row k r st) k' = persisted st k'"
    by (cases "k \<in> set (symbols st)")
       (simp_all add: append_row_known append_row_unknown assms persisted_def)
  show "symbols (append_row k r st) = symbols st"
    by (cases "k \<in> set (symbols st)")
       (simp_all add: append_row_known append_row_unknown assms)
  show "dicts_ok (append_row k r st)"
    using assms
    by (cases "k \<in> set (symbols st)")
       (auto simp: append_row_known append_row_unknown dicts_ok_def)
  show "last_save_time (append_row k r st) = last_save_time st"
    by (cases "k \<in> set (symbols st)")
       (simp_all add: append_row_known append_row_unknown assms)
qed

subsection \<open>Draining one symbol\<close>

lemma save_symbol_known:
  assumes "dicts_ok st" and "k \<in> set (symbols st)"
  shows "save_symbol sink k st
           = (if buffered st k = [] then Inr st
              else case sink k of
                     Written \<Rightarrow>
                       Inr (st\<lparr>csv_files := (csv_files st)(k \<mapsto> persisted st k @ buffered st k),
                               buffers := (buffers st)(k \<mapsto> [])\<rparr>)
                   | Failed n \<Rightarrow>
                       Inl (st\<lparr>csv_files := (csv_files st)(k \<mapsto> persisted st k @ take n (buffered st k))\<rparr>))"
  using dicts_ok_keys [OF assms] by (simp add: save_symbol_def Let_def split: sink_outcome.splits)

lemma save_symbol_unknown:
  assumes "dicts_ok st" and "k \<notin> set (symbols st)"
  shows "save_symbol sink k st = Inl st"
  using dicts_ok_no_key [OF assms] by (simp add: save_symbol_def)

lemma rows_written_Nil: "rows_written outcome [] = []"
  by (cases outcome) simp_all

lemma rows_written_length: "length (rows_written outcome rows) \<le> length rows"
  by (cases outcome) simp_all

text \<open>The state in which a drain leaves the streamer, seen at every symbol.\<close>

lemma save_symbol_views:
  assumes "dicts_ok st"
  shows "persisted (state_of (save_symbol sink k st)) k'
           = persisted st k' @ (if k' = k \<and> k \<in> set (symbols st)
                                then rows_written (sink k) (buffered st k) else [])"
    and "buffered (state_of (save_symbol sink k st)) k'
           = (if k' = k \<and> k \<in> set (symbols st) \<and> sink k = Written then [] else buffered st k')"
    and "counted (state_of (save_symbol sink k st)) k' = counted st k'"
    and "symbols (state_of (save_symbol sink k st)) = symbols st"
    and "dicts_ok (state_of (save_symbol sink k st))"
    and "last_save_time (state_of (save_symbol sink k st)) = last_save_time st"
    and "save_interval (state_of (save_symbol sink k st)) = save_interval st"
proof -
  show "persisted (state_of (save_symbol sink k st)) k'
           = persisted st k' @ (if k' = k \<and> k \<in> set (symbols st)
                                then rows_written (sink k) (buffered st k) else [])"
    by (cases "k \<in> set (symbols st)"; cases "sink k")
       (simp_all add: save_symbol_known save_symbol_unknown assms persisted_def state_of_def)
  show "buffered (state_of (save_symbol sink k st)) k'
           = (if k' = k \<and> k \<in> set (symbols st) \<and> sink k = Written then [] else buffered st k')"
    by (cases "k \<in> set (symbols st)"; cases "sink k")
       (simp_all add: save_symbol_known save_symbol_unknown assms buffered_def state_of_def)
  show "counted (state_of (save_symbol sink k st)) k' = counted st k'"
    by (cases "k \<in> set (symbols st)"; cases "sink k")
       (simp_all add: save_symbol_known save_symbol_unknown assms counted_def state_of_def)
  show "symbols (state_of (save_symbol sink k st)) = symbols st"
    by (cases "k \<in> set (symbols st)"; cases "sink k")
       (simp_all add: save_symbol_known save_symbol_unknown assms state_of_def)
  show "dicts_ok (state_of (save_symbol sink k st))"
    using assms
    by (cases "k \<in> set (symbols st)"; cases "sink k")
       (auto simp: save_symbol_known save_symbol_unknown dicts_ok_def state_of_def)
  show "last_save_time (state_of (save_symbol sink k st)) = last_save_time st"
    by (cases "k \<in> set (symbols st)"; cases "sink k")
       (simp_all add: save_symbol_known save_symbol_unknown assms state_of_def)
  show "save_interval (state_of (save_symbol sink k st)) = save_interval st"
    by (cases "k \<in> set (symbols st)"; cases "sink k")
       (simp_all add: save_symbol_known save_symbol_unknown assms state_of_def)
qed

lemma run_section_Drain:
  "run_section f (Drain k outcome) st = state_of (save_symbol (\<lambda>_. outcome) k st)"
  by (simp add: state_of_def)

subsection \<open>The critical sections, seen at one symbol\<close>

lemma process_trade_views:
  assumes "dicts_ok st"
  shows "buffered (process_trade f t k st) k'
           = buffered st k' @ (if k' = k \<and> k \<in> set (symbols st)
                               then List.map_filter (trade_data_row f) [t] else [])"
    and "counted (process_trade f t k st) k'
           = counted st k' + (if k' = k \<and> k \<in> set (symbols st)
                              then length (List.map_filter (trade_data_row f) [t]) else 0)"
    and "persisted (process_trade f t k st) k' = persisted st k'"
    and "symbols (process_trade f t k st) = symbols st"
    and "dicts_ok (process_trade f t k st)"
    and "last_save_time (process_trade f t k st) = last_save_time st"
  using assms
  by (simp_all add: process_trade_def append_row_views
      split: option.splits)

lemma locked_process_trades_views:
  assumes "dicts_ok st"
  shows "buffered (locked_process_trades f k ts st) k'
           = buffered st k' @ (if k' = k \<and> k \<in> set (symbols st)
                               then List.map_filter (trade_data_row f) ts else [])
         \<and> counted (locked_process_trades f k ts st) k'
           = counted st k' + (if k' = k \<and> k \<in> set (symbols st)
                              then length (List.map_filter (trade_data_row f) ts) else 0)
         \<and> persisted (locked_process_trades f k ts st) k' = persisted st k'
         \<and> symbols (locked_process_trades f k ts st) = symbols st
         \<and> dicts_ok (locked_process_trades f k ts st)
         \<and> last_save_time (locked_process_trades f k ts st) = last_save_time st"
  using assms
proof (induction ts arbitrary: st)
  case Nil
  then show ?case by (simp add: locked_process_trades_def)
next
  case (Cons t ts)
  let ?st1 = "process_trade f t k st"
  have ok1: "dicts_ok ?st1" by (rule process_trade_views(5) [OF Cons.prems])
  have unfold: "locked_process_trades f k (t # ts) st = locked_process_trades f k ts ?st1"
    by (simp add: locked_process_trades_def)
  have mf: "List.map_filter (trade_data_row f) (t # ts)
              = List.map_filter (trade_data_row f) [t] @ List.map_filter (trade_data_row f) ts"
    by (simp split: option.splits)
  show ?case
    unfolding unfold
    using Cons.IH [OF ok1] process_trade_views [OF Cons.prems, of f t k]
    by (auto simp: mf split: option.splits)
qed

lemma drain_views:
  assumes "dicts_ok st"
  shows "persisted (run_section f (Drain k outcome) st) k'
           = persisted st k' @ (if k' = k \<and> k \<in> set (symbols st)
                                then rows_written outcome (buffered st k) else [])"
    and "buffered (run_section f (Drain k outcome) st) k'
           = (if k' = k \<and> k \<in> set (symbols st) \<and> outcome = Written then [] else buffered st k')"
    and "counted (run_section f (Drain k outcome) st) k' = counted st k'"
    and "symbols (run_section f (Drain k outcome) st) = symbols st"
    and "dicts_ok (run_section f (Drain k outcome) st)"
  unfolding run_section_Drain
  by (simp_all only: save_symbol_views [OF assms])

text \<open>
  What one critical section does to the three views of a configured symbol: the rows
  it puts in the file, the rows it takes out of the buffer, the rows it appends.
\<close>

lemma run_section_views:
  assumes "dicts_ok st" and "k \<in> set (symbols st)"
  shows "\<exists>written cleared.
           persisted (run_section f op st) k = persisted st k @ written \<and>
           cleared @ buffered (run_section f op st) k = buffered st k @ appended_rows f k [op] \<and>
           cleared = (if buffered (run_section f op st) k = [] then buffered st k else []) \<and>
           length cleared \<le> length written \<and>
           (writes_nothing_when_failing op \<longrightarrow> written = cleared) \<and>
           counted (run_section f op st) k = counted st k + length (appended_rows f k [op])"
    and "dicts_ok (run_section f op st)"
    and "symbols (run_section f op st) = symbols st"
proof -
  show "\<exists>written cleared.
           persisted (run_section f op st) k = persisted st k @ written \<and>
           cleared @ buffered (run_section f op st) k = buffered st k @ appended_rows f k [op] \<and>
           cleared = (if buffered (run_section f op st) k = [] then buffered st k else []) \<and>
           length cleared \<le> length written \<and>
           (writes_nothing_when_failing op \<longrightarrow> written = cleared) \<and>
           counted (run_section f op st) k = counted st k + length (appended_rows f k [op])"
  proof (cases op)
    case (Ingest k' ts)
    show ?thesis
      unfolding Ingest
      using locked_process_trades_views [OF assms(1), of f k' ts k] assms(2)
      by (intro exI [of _ "[]"]) auto
  next
    case (Drain k' outcome)
    note v = drain_views(1,2,3) [OF assms(1), of f k' outcome k]
    show ?thesis
    proof (cases "k = k' \<and> outcome = Written")
      case True
      show ?thesis
        unfolding Drain using v True assms(2)
        by (intro exI [of _ "buffered st k"]) simp
    next
      case False
      show ?thesis
        unfolding Drain using v False assms(2)
        by (intro exI [of _ "if k = k' then rows_written outcome (buffered st k) else []"]
                  exI [of _ "[]"])
           (cases outcome; auto)
    qed
  next
    case (SaveDone now)
    show ?thesis unfolding SaveDone
      by (intro exI [of _ "[]"]) (simp add: persisted_def buffered_def counted_def)
  next
    case Stats
    show ?thesis unfolding Stats by (intro exI [of _ "[]"]) simp
  qed
  show "dicts_ok (run_section f op st)"
  proof (cases op)
    case (Ingest k' ts)
    show ?thesis unfolding Ingest
      using locked_process_trades_views [OF assms(1), of f k' ts k] by simp
  next
    case (Drain k' outcome)
    show ?thesis unfolding Drain by (rule drain_views(5) [OF assms(1)])
  next
    case (SaveDone now)
    show ?thesis unfolding SaveDone using assms(1) by (simp add: dicts_ok_def)
  next
    case Stats
    show ?thesis unfolding Stats using assms(1) by simp
  qed
  show "symbols (run_section f op st) = symbols st"
  proof (cases op)
    case (Ingest k' ts)
    show ?thesis unfolding Ingest
      using locked_process_trades_views [OF assms(1), of f k' ts k] by simp
  next
    case (Drain k' outcome)
    show ?thesis unfolding Drain by (rule drain_views(4) [OF assms(1)])
  next
    case (SaveDone now)
    show ?thesis unfolding SaveDone by simp
  next
    case Stats
    show ?thesis unfolding Stats by simp
  qed
qed

lemma appended_rows_Cons:
  "appended_rows f k (op # ops) = appended_rows f k [op] @ appended_rows f k ops"
  by (cases op) simp_all

text \<open>A whole run, seen at one configured symbol.\<close>

lemma run_sections_views:
  assumes "dicts_ok st" and "k \<in> set (symbols st)"
  shows "persisted (run_sections f ops st) k = persisted st k @ concat (drained_batches f k ops st) \<and>
         concat (cleared_batches f k ops st) @ buffered (run_sections f ops st) k
           = buffered st k @ appended_rows f k ops \<and>
         length (concat (cleared_batches f k ops st)) \<le> length (concat (drained_batches f k ops st)) \<and>
         (list_all writes_nothing_when_failing ops
            \<longrightarrow> drained_batches f k ops st = cleared_batches f k ops st) \<and>
         counted (run_sections f ops st) k = counted st k + length (appended_rows f k ops) \<and>
         dicts_ok (run_sections f ops st) \<and>
         symbols (run_sections f ops st) = symbols st"
  using assms
proof (induction ops arbitrary: st)
  case Nil
  then show ?case by (simp add: run_sections_def)
next
  case (Cons op ops)
  let ?st1 = "run_section f op st"
  from run_section_views [OF Cons.prems, of f op]
  obtain written cleared where b: "persisted ?st1 k = persisted st k @ written"
    "cleared @ buffered ?st1 k = buffered st k @ appended_rows f k [op]"
    "cleared = (if buffered ?st1 k = [] then buffered st k else [])"
    "length cleared \<le> length written"
    "writes_nothing_when_failing op \<longrightarrow> written = cleared"
    "counted ?st1 k = counted st k + length (appended_rows f k [op])"
    and ok1: "dicts_ok ?st1" and sy1: "symbols ?st1 = symbols st"
    by blast
  have k1: "k \<in> set (symbols ?st1)" using sy1 Cons.prems(2) by simp
  have unfold: "run_sections f (op # ops) st = run_sections f ops ?st1"
    by (simp add: run_sections_def)
  have dr: "drained_batches f k (op # ops) st
              = (if written = [] then [] else [written]) @ drained_batches f k ops ?st1"
    by (simp add: Let_def b(1))
  have cl: "cleared_batches f k (op # ops) st
              = (if cleared = [] then [] else [cleared]) @ cleared_batches f k ops ?st1"
    by (simp add: Let_def b(3) [symmetric])
  have cd: "concat (drained_batches f k (op # ops) st) = written @ concat (drained_batches f k ops ?st1)"
    unfolding dr by simp
  have cc: "concat (cleared_batches f k (op # ops) st) = cleared @ concat (cleared_batches f k ops ?st1)"
    unfolding cl by simp
  note ih = Cons.IH [OF ok1 k1]
  have i1: "persisted (run_sections f ops ?st1) k
              = persisted ?st1 k @ concat (drained_batches f k ops ?st1)"
    and i2: "concat (cleared_batches f k ops ?st1) @ buffered (run_sections f ops ?st1) k
              = buffered ?st1 k @ appended_rows f k ops"
    and i3: "length (concat (cleared_batches f k ops ?st1))
              \<le> length (concat (drained_batches f k ops ?st1))"
    and i4: "list_all writes_nothing_when_failing ops
              \<longrightarrow> drained_batches f k ops ?st1 = cleared_batches f k ops ?st1"
    and i5: "counted (run_sections f ops ?st1) k = counted ?st1 k + length (appended_rows f k ops)"
    and i6: "dicts_ok (run_sections f ops ?st1)"
    and i7: "symbols (run_sections f ops ?st1) = symbols ?st1"
    using ih by blast+
  have 1: "persisted (run_sections f ops ?st1) k
             = persisted st k @ concat (drained_batches f k (op # ops) st)"
    unfolding i1 b(1) cd by simp
  have 2: "concat (cleared_batches f k (op # ops) st) @ buffered (run_sections f ops ?st1) k
             = buffered st k @ appended_rows f k (op # ops)"
  proof -
    have "concat (cleared_batches f k (op # ops) st) @ buffered (run_sections f ops ?st1) k
            = cleared @ buffered ?st1 k @ appended_rows f k ops"
      unfolding cc using i2 by simp
    also have "\<dots> = (buffered st k @ appended_rows f k [op]) @ appended_rows f k ops"
      using b(2) by simp
    finally show ?thesis by (simp add: appended_rows_Cons [of f k op ops])
  qed
  have 3: "length (concat (cleared_batches f k (op # ops) st))
             \<le> length (concat (drained_batches f k (op # ops) st))"
    unfolding cc cd using i3 b(4) by simp
  have 4: "list_all writes_nothing_when_failing (op # ops)
             \<longrightarrow> drained_batches f k (op # ops) st = cleared_batches f k (op # ops) st"
    unfolding dr cl using i4 b(5) by simp
  have 5: "counted (run_sections f ops ?st1) k = counted st k + length (appended_rows f k (op # ops))"
    unfolding i5 b(6) by (simp add: appended_rows_Cons [of f k op ops])
  have 7: "symbols (run_sections f ops ?st1) = symbols st" unfolding i7 by (rule sy1)
  show ?case unfolding unfold using 1 2 3 4 5 i6 7 by blast
qed

subsection \<open>Evaluating the sample runs\<close>

lemmas sample_eval =
  sample_run_def sample_trade_def sample_strftime_def str_of_def ascii_upper_def
  run_sections_def locked_process_trades_def process_trade_def trade_data_row_def
  append_row_def save_symbol_def init_streamer_def buffered_def persisted_def counted_def
  Let_def

lemmas partial_eval =
  sample_run_partial_def sample_trade_def sample_strftime_def str_of_def ascii_upper_def
  run_sections_def locked_process_trades_def process_trade_def trade_data_row_def
  append_row_def save_symbol_def init_streamer_def buffered_def persisted_def counted_def
  Let_def

subsection \<open>Appends and drains in any order\<close>

text \<open>
  Claim C1, as stated, fails. Two rows are appended for a symbol; the write of the
  first drain raises after the first row has reached the file, so the buffer is not
  cleared, and the second drain writes both rows. The batches that reached the file
  hold the first row twice while the buffer is empty: their union is not the two
  appended rows, each once.
\<close>

theorem partial_write_is_drained_twice_counterexample:
  "map row_timestamp (appended_rows sample_strftime (str_of ''BTCUSDT'') sample_run_partial)
     = [1000, 2000] \<and>
   map (map row_timestamp)
     (drained_batches sample_strftime (str_of ''BTCUSDT'') sample_run_partial
        (init_streamer ascii_upper [str_of ''btcusdt''] 0 60))
     = [[1000], [1000, 2000]] \<and>
   buffered (run_sections sample_strftime sample_run_partial
               (init_streamer ascii_upper [str_of ''btcusdt''] 0 60)) (str_of ''BTCUSDT'') = [] \<and>
   sum_list (map mset (drained_batches sample_strftime (str_of ''BTCUSDT'') sample_run_partial
                         (init_streamer ascii_upper [str_of ''btcusdt''] 0 60)))
     + mset (buffered (run_sections sample_strftime sample_run_partial
                         (init_streamer ascii_upper [str_of ''btcusdt''] 0 60)) (str_of ''BTCUSDT''))
     \<noteq> mset (appended_rows sample_strftime (str_of ''BTCUSDT'') sample_run_partial)"
proof -
  let ?ini = "init_streamer ascii_upper [str_of ''btcusdt''] 0 60 :: trade_row streamer"
  let ?D = "drained_batches sample_strftime (str_of ''BTCUSDT'') sample_run_partial ?ini"
  let ?B = "buffered (run_sections sample_strftime sample_run_partial ?ini) (str_of ''BTCUSDT'')"
  let ?A = "appended_rows sample_strftime (str_of ''BTCUSDT'') sample_run_partial"
  have a: "map row_timestamp ?A = [1000, 2000]"
    by (simp add: partial_eval)
  have d: "map (map row_timestamp) ?D = [[1000], [1000, 2000]]"
    by (simp add: partial_eval)
  have b: "?B = []"
    by (simp add: partial_eval)
  have "length (concat ?D) = length (concat (map (map row_timestamp) ?D))"
    by (simp add: length_concat comp_def)
  then have ld: "length (concat ?D) = 3" unfolding d by simp
  have "length ?A = length (map row_timestamp ?A)" by simp
  then have la: "length ?A = 2" unfolding a by simp
  have "sum_list (map mset ?D) + mset ?B \<noteq> mset ?A"
  proof
    assume "sum_list (map mset ?D) + mset ?B = mset ?A"
    then have "mset (concat ?D @ ?B) = mset ?A" by (simp add: mset_concat)
    then have "length (concat ?D @ ?B) = length ?A" by (rule mset_eq_length)
    then show False using ld la b by simp
  qed
  then show ?thesis using a d b by blast
qed

text \<open>
  Claim C1, amended. Start the trade streamer on any list of symbols and run any
  sequence of critical sections: appends and drains of any symbols in any order, each
  drain with any outcome of its write. For every configured symbol, the batches that
  the drains take out of its buffer, one after the other, followed by the rows still
  in its buffer are exactly the rows appended for it, in the order of the appends; so
  every appended row is in exactly one such batch or in the buffer, once, and each
  batch and the buffer keep the append order. The file holds what the sections wrote
  and nothing else. When every write that fails has written nothing, the batches
  written to the file are the batches taken out of the buffer, so the same holds of
  the written batches. After any run, a drain whose write succeeds moves the whole
  buffer to the end of the file, and a drain whose write fails after \<open>n\<close> rows leaves
  these rows at the end of the file and the whole buffer in place, to be written again
  by the next drain.
\<close>

theorem drained_batches_then_buffer_are_the_appends:
  assumes "skey \<in> set (map upper syms)"
  shows "concat (cleared_batches strftime skey ops (init_streamer upper syms now interval))
           @ buffered (run_sections strftime ops (init_streamer upper syms now interval)) skey
         = appended_rows strftime skey ops \<and>
         sum_list (map mset (cleared_batches strftime skey ops (init_streamer upper syms now interval)))
           + mset (buffered (run_sections strftime ops (init_streamer upper syms now interval)) skey)
         = mset (appended_rows strftime skey ops) \<and>
         persisted (run_sections strftime ops (init_streamer upper syms now interval)) skey
         = concat (drained_batches strftime skey ops (init_streamer upper syms now interval)) \<and>
         (list_all writes_nothing_when_failing ops \<longrightarrow>
            drained_batches strftime skey ops (init_streamer upper syms now interval)
            = cleared_batches strftime skey ops (init_streamer upper syms now interval) \<and>
            concat (drained_batches strftime skey ops (init_streamer upper syms now interval))
              @ buffered (run_sections strftime ops (init_streamer upper syms now interval)) skey
            = appended_rows strftime skey ops \<and>
            sum_list (map mset (drained_batches strftime skey ops (init_streamer upper syms now interval)))
              + mset (buffered (run_sections strftime ops (init_streamer upper syms now interval)) skey)
            = mset (appended_rows strftime skey ops)) \<and>
         persisted (run_section strftime (Drain skey Written)
                      (run_sections strftime ops (init_streamer upper syms now interval))) skey
         = persisted (run_sections strftime ops (init_streamer upper syms now interval)) skey
           @ buffered (run_sections strftime ops (init_streamer upper syms now interval)) skey \<and>
         buffered (run_section strftime (Drain skey Written)
                     (run_sections strftime ops (init_streamer upper syms now interval))) skey
         = [] \<and>
         persisted (run_section strftime (Drain skey (Failed n))
                      (run_sections strftime ops (init_streamer upper syms now interval))) skey
         = persisted (run_sections strftime ops (init_streamer upper syms now interval)) skey
           @ take n (buffered (run_sections strftime ops (init_streamer upper syms now interval)) skey) \<and>
         buffered (run_section strftime (Drain skey (Failed n))
                     (run_sections strftime ops (init_streamer upper syms now interval))) skey
         = buffered (run_sections strftime ops (init_streamer upper syms now interval)) skey"
proof -
  let ?ini = "init_streamer upper syms now interval :: trade_row streamer"
  let ?C = "cleared_batches strftime skey ops ?ini"
  let ?D = "drained_batches strftime skey ops ?ini"
  let ?B = "buffered (run_sections strftime ops ?ini) skey"
  let ?A = "appended_rows strftime skey ops"
  have k: "skey \<in> set (symbols ?ini)" using assms by (simp add: init_views del: map_map)
  note v = run_sections_views [OF dicts_ok_init k, of strftime ops]
  have p: "persisted (run_sections strftime ops ?ini) skey = concat ?D"
    using v by (simp add: init_views)
  have a: "concat ?C @ ?B = ?A"
    using v by (simp add: init_views)
  have "mset (concat ?C @ ?B) = mset ?A" by (simp only: a)
  then have m: "sum_list (map mset ?C) + mset ?B = mset ?A"
    by (simp add: mset_concat)
  have e: "list_all writes_nothing_when_failing ops \<longrightarrow> ?D = ?C"
    using v by blast
  have h: "list_all writes_nothing_when_failing ops \<longrightarrow>
             ?D = ?C \<and> concat ?D @ ?B = ?A \<and> sum_list (map mset ?D) + mset ?B = mset ?A"
  proof
    assume "list_all writes_nothing_when_failing ops"
    with e have "?D = ?C" by blast
    then show "?D = ?C \<and> concat ?D @ ?B = ?A \<and> sum_list (map mset ?D) + mset ?B = mset ?A"
      using a m by simp
  qed
  let ?fin = "run_sections strftime ops ?ini"
  have ok: "dicts_ok ?fin" using v by blast
  have ks: "skey \<in> set (symbols ?fin)" using v k by simp
  have w: "persisted (run_section strftime (Drain skey Written) ?fin) skey
             = persisted ?fin skey @ buffered ?fin skey"
    "buffered (run_section strftime (Drain skey Written) ?fin) skey = []"
    using ks drain_views(1,2) [OF ok, of strftime skey Written skey] by simp_all
  have f: "persisted (run_section strftime (Drain skey (Failed n)) ?fin) skey
             = persisted ?fin skey @ take n (buffered ?fin skey)"
    "buffered (run_section strftime (Drain skey (Failed n)) ?fin) skey = buffered ?fin skey"
    using ks drain_views(1,2) [OF ok, of strftime skey "Failed n" skey] by simp_all
  show ?thesis using a m p h w f by blast
qed

text \<open>
  Claim C7, as stated, fails. After the same run, in which a write fails after one of
  two rows and the next write succeeds, the lifetime counter of the symbol is 2 while
  its file holds three rows and its buffer none.
\<close>

theorem partial_write_breaks_counter_equation_counterexample:
  "counted (run_sections sample_strftime sample_run_partial
              (init_streamer ascii_upper [str_of ''btcusdt''] 0 60)) (str_of ''BTCUSDT'') = 2 \<and>
   length (persisted (run_sections sample_strftime sample_run_partial
              (init_streamer ascii_upper [str_of ''btcusdt''] 0 60)) (str_of ''BTCUSDT'')) = 3 \<and>
   length (buffered (run_sections sample_strftime sample_run_partial
              (init_streamer ascii_upper [str_of ''btcusdt''] 0 60)) (str_of ''BTCUSDT'')) = 0 \<and>
   counted (run_sections sample_strftime sample_run_partial
              (init_streamer ascii_upper [str_of ''btcusdt''] 0 60)) (str_of ''BTCUSDT'')
     \<noteq> length (persisted (run_sections sample_strftime sample_run_partial
              (init_streamer ascii_upper [str_of ''btcusdt''] 0 60)) (str_of ''BTCUSDT''))
       + length (buffered (run_sections sample_strftime sample_run_partial
              (init_streamer ascii_upper [str_of ''btcusdt''] 0 60)) (str_of ''BTCUSDT''))"
  by (simp add: partial_eval)

text \<open>
  Claim C7, amended. For every configured symbol of the trade streamer and after every
  sequence of critical sections (appends, drains with any outcome of the write, the end
  of a save, reads of the statistics), no further section makes the lifetime counter
  smaller, and the counter is the number of rows appended for the symbol so far. It
  is never more than the number of rows in the symbol's file plus the number of rows in
  its buffer, and it equals that sum when every write that failed has written nothing.
\<close>

theorem lifetime_counter_is_persisted_plus_buffered:
  assumes "skey \<in> set (map upper syms)"
  shows "counted (run_sections strftime ops (init_streamer upper syms now interval)) skey
         \<le> counted (run_section strftime op
                (run_sections strftime ops (init_streamer upper syms now interval))) skey
         \<and>
         counted (run_sections strftime ops (init_streamer upper syms now interval)) skey
         = length (appended_rows strftime skey ops)
         \<and>
         counted (run_sections strftime ops (init_streamer upper syms now interval)) skey
         \<le> length (persisted (run_sections strftime ops (init_streamer upper syms now interval)) skey)
           + length (buffered (run_sections strftime ops (init_streamer upper syms now interval)) skey)
         \<and>
         (list_all writes_nothing_when_failing ops \<longrightarrow>
            counted (run_sections strftime ops (init_streamer upper syms now interval)) skey
            = length (persisted (run_sections strftime ops (init_streamer upper syms now interval)) skey)
              + length (buffered (run_sections strftime ops (init_streamer upper syms now interval)) skey))"
proof -
  let ?ini = "init_streamer upper syms now interval :: trade_row streamer"
  let ?fin = "run_sections strftime ops ?ini"
  let ?C = "cleared_batches strftime skey ops ?ini"
  let ?D = "drained_batches strftime skey ops ?ini"
  have k: "skey \<in> set (symbols ?ini)" using assms by (simp add: init_views del: map_map)
  note v = run_sections_views [OF dicts_ok_init k, of strftime ops]
  have p: "persisted ?fin skey = concat ?D" using v by (simp add: init_views)
  have "concat ?C @ buffered ?fin skey = appended_rows strftime skey ops"
    using v by (simp add: init_views)
  then have "length (concat ?C @ buffered ?fin skey) = length (appended_rows strftime skey ops)"
    by (simp only:)
  then have a: "length (concat ?C) + length (buffered ?fin skey) = length (appended_rows strftime skey ops)"
    by simp
  have c: "counted ?fin skey = length (appended_rows strftime skey ops)"
    using v by (simp add: init_views)
  have le: "length (concat ?C) \<le> length (concat ?D)" using v by blast
  have e: "list_all writes_nothing_when_failing ops \<longrightarrow> ?D = ?C" using v by blast
  have ub: "counted ?fin skey \<le> length (persisted ?fin skey) + length (buffered ?fin skey)"
    unfolding c p using a le by linarith
  have eq: "list_all writes_nothing_when_failing ops \<longrightarrow>
              counted ?fin skey = length (persisted ?fin skey) + length (buffered ?fin skey)"
  proof
    assume "list_all writes_nothing_when_failing ops"
    with e have "?D = ?C" by blast
    then show "counted ?fin skey = length (persisted ?fin skey) + length (buffered ?fin skey)"
      unfolding c p using a by simp
  qed
  have ok: "dicts_ok ?fin" using v by blast
  have ks: "skey \<in> set (symbols ?fin)" using v k by simp
  from run_section_views(1) [OF ok ks, of strftime op]
  have mono: "counted ?fin skey \<le> counted (run_section strftime op ?fin) skey" by auto
  show ?thesis using mono c ub eq by blast
qed

subsection \<open>The save loop\<close>

lemma save_symbol_raises:
  assumes "dicts_ok st"
  shows "(\<exists>st'. save_symbol sink k st = Inl st')
           = (k \<notin> set (symbols st) \<or> (buffered st k \<noteq> [] \<and> sink k \<noteq> Written))"
  by (cases "k \<in> set (symbols st)"; cases "sink k")
     (simp_all add: save_symbol_known save_symbol_unknown assms)

lemma save_loop_step:
  "save_loop sink (k # rest) st
     = (if \<exists>st'. save_symbol sink k st = Inl st' then Inl (state_of (save_symbol sink k st))
        else save_loop sink rest (state_of (save_symbol sink k st)))"
  by (cases "save_symbol sink k st") (simp_all add: state_of_def)

text \<open>Whatever the writes do, the loop leaves the symbols, the counters and the times.\<close>

lemma save_loop_preserves:
  assumes "dicts_ok st"
  shows "dicts_ok (state_of (save_loop sink ss st)) \<and>
         symbols (state_of (save_loop sink ss st)) = symbols st \<and>
         last_save_time (state_of (save_loop sink ss st)) = last_save_time st \<and>
         save_interval (state_of (save_loop sink ss st)) = save_interval st \<and>
         (\<forall>k. counted (state_of (save_loop sink ss st)) k = counted st k)"
  using assms
proof (induction ss arbitrary: st)
  case Nil
  then show ?case by (simp add: state_of_def)
next
  case (Cons k rest)
  let ?s = "state_of (save_symbol sink k st)"
  note v = save_symbol_views [OF Cons.prems, of sink k]
  show ?case
  proof (cases "\<exists>st'. save_symbol sink k st = Inl st'")
    case True
    then have "save_loop sink (k # rest) st = Inl ?s"
      by (simp only: save_loop_step if_True)
    then have "state_of (save_loop sink (k # rest) st) = ?s"
      by (simp add: state_of_def)
    then show ?thesis using v by simp
  next
    case False
    then have e: "save_loop sink (k # rest) st = save_loop sink rest ?s"
      by (simp only: save_loop_step if_False)
    show ?thesis unfolding e using Cons.IH [OF v(5)] v by simp
  qed
qed

text \<open>A loop over symbols whose write succeeds, or whose buffers are empty, drains them all.\<close>

lemma save_loop_succeeds:
  assumes "dicts_ok st" and "set ss \<subseteq> set (symbols st)"
    and "\<forall>s\<in>set ss. sink s = Written \<or> buffered st s = []"
  shows "\<exists>st'. save_loop sink ss st = Inr st' \<and>
           (\<forall>k. buffered st' k = (if k \<in> set ss then [] else buffered st k)) \<and>
           (\<forall>k. persisted st' k
                  = (if k \<in> set ss then persisted st k @ buffered st k else persisted st k))"
  using assms
proof (induction ss arbitrary: st)
  case Nil
  then show ?case by simp
next
  case (Cons k rest)
  let ?s = "state_of (save_symbol sink k st)"
  note v = save_symbol_views [OF Cons.prems(1), of sink k]
  have kin: "k \<in> set (symbols st)" using Cons.prems(2) by simp
  have kok: "sink k = Written \<or> buffered st k = []" using Cons.prems(3) by simp
  have nr: "\<not> (\<exists>st'. save_symbol sink k st = Inl st')"
    using kin kok by (auto simp: save_symbol_raises [OF Cons.prems(1)])
  have e: "save_loop sink (k # rest) st = save_loop sink rest ?s"
    using nr by (simp only: save_loop_step if_False)
  have b1: "buffered ?s k' = (if k' = k then [] else buffered st k')" for k'
    using kin kok by (auto simp: v(2))
  have p1: "persisted ?s k' = (if k' = k then persisted st k @ buffered st k else persisted st k')" for k'
    using kin kok by (auto simp: v(1) rows_written_Nil)
  have pre: "set rest \<subseteq> set (symbols ?s)" "\<forall>s\<in>set rest. sink s = Written \<or> buffered ?s s = []"
    using Cons.prems(2,3) by (auto simp: v(4) b1)
  from Cons.IH [OF v(5) pre] obtain st' where st':
    "save_loop sink rest ?s = Inr st'"
    "\<forall>k'. buffered st' k' = (if k' \<in> set rest then [] else buffered ?s k')"
    "\<forall>k'. persisted st' k'
            = (if k' \<in> set rest then persisted ?s k' @ buffered ?s k' else persisted ?s k')"
    by blast
  have "\<forall>k'. buffered st' k' = (if k' \<in> set (k # rest) then [] else buffered st k')"
    using st'(2) b1 by auto
  moreover have "\<forall>k'. persisted st' k'
            = (if k' \<in> set (k # rest) then persisted st k' @ buffered st k' else persisted st k')"
    using st'(3) b1 p1 by auto
  ultimately show ?case unfolding e using st'(1) by blast
qed

lemma save_loop_append:
  "save_loop sink (xs @ ys) st
     = (case save_loop sink xs st of Inl st' \<Rightarrow> Inl st' | Inr st' \<Rightarrow> save_loop sink ys st')"
  by (induction xs arbitrary: st) (simp_all split: sum.splits)

text \<open>The first symbol whose write fails on a non-empty buffer ends the loop.\<close>

lemma save_loop_fails:
  assumes "dicts_ok st" and "set (pre @ k # post) \<subseteq> set (symbols st)"
    and "\<forall>s\<in>set pre. sink s = Written \<or> buffered st s = []"
    and "k \<notin> set pre" and "buffered st k \<noteq> []" and "sink k = Failed n"
  shows "\<exists>st'. save_loop sink (pre @ k # post) st = Inl st' \<and>
           (\<forall>s. buffered st' s = (if s \<in> set pre then [] else buffered st s)) \<and>
           (\<forall>s. persisted st' s
                  = (if s \<in> set pre then persisted st s @ buffered st s
                     else if s = k then persisted st k @ take n (buffered st k)
                     else persisted st s))"
proof -
  have sub: "set pre \<subseteq> set (symbols st)" using assms(2) by simp
  from save_loop_succeeds [OF assms(1) sub assms(3)] obtain st1 where st1:
    "save_loop sink pre st = Inr st1"
    "\<forall>s. buffered st1 s = (if s \<in> set pre then [] else buffered st s)"
    "\<forall>s. persisted st1 s
            = (if s \<in> set pre then persisted st s @ buffered st s else persisted st s)"
    by blast
  have s1: "state_of (save_loop sink pre st) = st1" by (simp add: st1(1) state_of_def)
  have ok1: "dicts_ok st1" and sy1: "symbols st1 = symbols st"
    using save_loop_preserves [OF assms(1), of sink pre] unfolding s1 by simp_all
  have kin: "k \<in> set (symbols st1)" using assms(2) sy1 by simp
  have kb: "buffered st1 k \<noteq> []" using st1(2) assms(4,5) by simp
  let ?s = "state_of (save_symbol sink k st1)"
  have "\<exists>st'. save_symbol sink k st1 = Inl st'"
    using kb assms(6) kin by (simp add: save_symbol_raises [OF ok1])
  then obtain sx where sx: "save_symbol sink k st1 = Inl sx" by blast
  have l: "save_loop sink (pre @ k # post) st = Inl ?s"
    by (simp add: save_loop_append st1(1) sx state_of_def)
  note v = save_symbol_views(1,2) [OF ok1, of sink k]
  have b: "\<forall>s. buffered ?s s = (if s \<in> set pre then [] else buffered st s)"
    using st1(2) assms(6) by (simp add: v(2))
  have p: "\<forall>s. persisted ?s s
                  = (if s \<in> set pre then persisted st s @ buffered st s
                     else if s = k then persisted st k @ take n (buffered st k)
                     else persisted st s)"
    using st1(2,3) assms(4,6) kin by (simp add: v(1))
  show ?thesis using l b p by blast
qed

subsection \<open>A flush whose write fails\<close>

lemma save_data_to_csv_raised:
  assumes "save_loop sink (symbols st) st = Inl st'"
  shows "save_data_to_csv sink now st = st'"
  using assms by (simp add: save_data_to_csv_def)

lemma save_data_to_csv_done:
  assumes "save_loop sink (symbols st) st = Inr st'"
  shows "save_data_to_csv sink now st = st'\<lparr>last_save_time := now\<rparr>"
  using assms by (simp add: save_data_to_csv_def)

lemma stamp_views:
  "buffered (st\<lparr>last_save_time := now\<rparr>) k = buffered st k"
  "persisted (st\<lparr>last_save_time := now\<rparr>) k = persisted st k"
  "counted (st\<lparr>last_save_time := now\<rparr>) k = counted st k"
  by (simp_all add: buffered_def persisted_def counted_def)

text \<open>
  Claim C8, as stated, fails. The only symbol has two rows buffered and its write
  fails: after the flush the two rows are still the content of the live buffer, there
  is no other place that holds them, and the next append is merged with them.
\<close>

theorem failed_batch_stays_in_live_buffer_counterexample:
  "buffered
     (save_data_to_csv (\<lambda>_. Failed 0) 100
        \<lparr>symbols = [str_of ''BTCUSDT''], buffers = [str_of ''BTCUSDT'' \<mapsto> [10, 11 :: nat]],
         totals = [str_of ''BTCUSDT'' \<mapsto> 2], csv_files = [str_of ''BTCUSDT'' \<mapsto> []],
         last_save_time = 0, save_interval = 60\<rparr>)
     (str_of ''BTCUSDT'') = [10, 11] \<and>
   buffered
     (append_row (str_of ''BTCUSDT'') 12
        (save_data_to_csv (\<lambda>_. Failed 0) 100
           \<lparr>symbols = [str_of ''BTCUSDT''], buffers = [str_of ''BTCUSDT'' \<mapsto> [10, 11 :: nat]],
            totals = [str_of ''BTCUSDT'' \<mapsto> 2], csv_files = [str_of ''BTCUSDT'' \<mapsto> []],
            last_save_time = 0, save_interval = 60\<rparr>))
     (str_of ''BTCUSDT'') = [10, 11, 12]"
  by (simp add: save_data_to_csv_def save_symbol_def append_row_def buffered_def Let_def)

text \<open>
  Claim C8, amended. Let the write fail for the non-empty buffer of one symbol, after
  any number \<open>n\<close> of its rows have reached the file, every symbol before it in the list of
  symbols having a write that succeeds or an empty buffer. Then the exception ends that
  flush: the symbol's rows stay in its live buffer, the symbols not yet visited keep
  their buffers and files, and the time of the last save is not set, so that the save
  stays due. The state remains usable by both paths: a row appended afterwards joins
  the unsaved rows in the same buffer, and the next flush whose writes succeed writes
  them all, in order, and empties the buffer. With a write that has written nothing
  when it fails (\<open>n = 0\<close>), nothing is written for the symbol by the failed flush, no row
  is lost and none is written twice: for every symbol the file followed by the buffer is
  what it was, plus the row appended in between. Otherwise the rows the failed write
  had put in the file stand there before the rows of the retry.
\<close>

theorem failed_flush_is_retried_from_the_buffer:
  fixes st :: "'r streamer" and k :: pystr and r :: 'r and now now' :: int
    and sink retry :: "pystr \<Rightarrow> sink_outcome" and n :: nat
  assumes "dicts_ok st" and "symbols st = pre @ k # post" and "k \<notin> set pre"
    and "\<forall>s\<in>set pre. sink s = Written \<or> buffered st s = []"
    and "buffered st k \<noteq> []" and "sink k = Failed n" and "\<forall>s. retry s = Written"
  defines "st1 \<equiv> save_data_to_csv sink now st"
  defines "st2 \<equiv> append_row k r st1"
  defines "st3 \<equiv> save_data_to_csv retry now' st2"
  shows "buffered st1 k = buffered st k \<and>
         persisted st1 k = persisted st k @ take n (buffered st k) \<and>
         (\<forall>s. s \<notin> set pre \<longrightarrow>
                buffered st1 s = buffered st s \<and> (s \<noteq> k \<longrightarrow> persisted st1 s = persisted st s)) \<and>
         last_save_time st1 = last_save_time st \<and>
         buffered st2 k = buffered st k @ [r] \<and>
         persisted st3 k = persisted st k @ take n (buffered st k) @ buffered st k @ [r] \<and>
         buffered st3 k = [] \<and>
         (\<forall>s. persisted st3 s @ buffered st3 s
                = persisted st s @ (if s = k then take n (buffered st k) else [])
                  @ buffered st s @ (if s = k then [r] else [])) \<and>
         (n = 0 \<longrightarrow>
            persisted st1 k = persisted st k \<and>
            (\<forall>s. s \<notin> set pre \<longrightarrow> buffered st1 s = buffered st s \<and> persisted st1 s = persisted st s) \<and>
            persisted st3 k = persisted st k @ buffered st k @ [r] \<and>
            (\<forall>s. persisted st3 s @ buffered st3 s
                   = persisted st s @ buffered st s @ (if s = k then [r] else [])))"
proof -
  have sub: "set (pre @ k # post) \<subseteq> set (symbols st)" using assms(2) by simp
  from save_loop_fails [OF assms(1) sub assms(4) assms(3) assms(5) assms(6)]
  obtain st' where st': "save_loop sink (pre @ k # post) st = Inl st'"
    "\<forall>s. buffered st' s = (if s \<in> set pre then [] else buffered st s)"
    "\<forall>s. persisted st' s
            = (if s \<in> set pre then persisted st s @ buffered st s
               else if s = k then persisted st k @ take n (buffered st k)
               else persisted st s)"
    by blast
  have l1: "save_loop sink (symbols st) st = Inl st'" using st'(1) assms(2) by simp
  have e1: "st1 = st'" unfolding st1_def by (rule save_data_to_csv_raised [OF l1])
  have so: "state_of (save_loop sink (symbols st) st) = st'" by (simp add: l1 state_of_def)
  note pr = save_loop_preserves [OF assms(1), of sink "symbols st", unfolded so, folded e1]
  have ok1: "dicts_ok st1" and sy1: "symbols st1 = symbols st"
    and t1: "last_save_time st1 = last_save_time st"
    using pr by blast+
  have b1: "buffered st1 s = (if s \<in> set pre then [] else buffered st s)" for s
    unfolding e1 using st'(2) by blast
  have p1: "persisted st1 s
              = (if s \<in> set pre then persisted st s @ buffered st s
                 else if s = k then persisted st k @ take n (buffered st k)
                 else persisted st s)" for s
    unfolding e1 using st'(3) by blast
  have c1: "persisted st1 s @ buffered st1 s
              = persisted st s @ (if s = k then take n (buffered st k) else []) @ buffered st s" for s
    using assms(3) by (auto simp: b1 p1)
  have kin: "k \<in> set (symbols st1)" using sy1 assms(2) by simp
  note a2 = append_row_views [OF ok1, of k r, folded st2_def]
  have b2: "buffered st2 s = buffered st1 s @ (if s = k then [r] else [])" for s
    using a2(1) [of s] kin by simp
  have p2: "persisted st2 s = persisted st1 s" for s by (rule a2(3))
  have ok2: "dicts_ok st2" by (rule a2(5))
  have sy2: "symbols st2 = symbols st" using a2(4) sy1 by simp
  have all: "\<forall>s\<in>set (symbols st2). retry s = Written \<or> buffered st2 s = []"
    using assms(7) by blast
  from save_loop_succeeds [OF ok2 subset_refl all]
  obtain st'' where st'': "save_loop retry (symbols st2) st2 = Inr st''"
    "\<forall>s. buffered st'' s = (if s \<in> set (symbols st2) then [] else buffered st2 s)"
    "\<forall>s. persisted st'' s
            = (if s \<in> set (symbols st2) then persisted st2 s @ buffered st2 s else persisted st2 s)"
    by blast
  have e3: "st3 = st''\<lparr>last_save_time := now'\<rparr>"
    unfolding st3_def by (rule save_data_to_csv_done [OF st''(1)])
  have kin2: "k \<in> set (symbols st2)" using sy2 assms(2) by simp
  have b3: "buffered st3 k = []" unfolding e3 using st''(2) kin2 by (simp add: stamp_views)
  have p3: "persisted st3 k = persisted st k @ take n (buffered st k) @ buffered st k @ [r]"
    unfolding e3 using st''(3) kin2 assms(3) by (simp add: stamp_views b2 p2 b1 p1)
  have c3: "persisted st3 s @ buffered st3 s = persisted st2 s @ buffered st2 s" for s
    unfolding e3 using st''(2,3) by (simp add: stamp_views)
  have c: "persisted st3 s @ buffered st3 s
             = persisted st s @ (if s = k then take n (buffered st k) else [])
               @ buffered st s @ (if s = k then [r] else [])" for s
    using c3 [of s] c1 [of s] by (simp add: b2 p2)
  have 1: "buffered st1 k = buffered st k"
    "persisted st1 k = persisted st k @ take n (buffered st k)"
    using assms(3) by (simp_all add: b1 p1)
  have 3: "\<forall>s. s \<notin> set pre \<longrightarrow>
             buffered st1 s = buffered st s \<and> (s \<noteq> k \<longrightarrow> persisted st1 s = persisted st s)"
    by (simp add: b1 p1)
  have 5: "buffered st2 k = buffered st k @ [r]" using 1(1) by (simp add: b2)
  have z: "n = 0 \<longrightarrow>
            persisted st1 k = persisted st k \<and>
            (\<forall>s. s \<notin> set pre \<longrightarrow> buffered st1 s = buffered st s \<and> persisted st1 s = persisted st s) \<and>
            persisted st3 k = persisted st k @ buffered st k @ [r] \<and>
            (\<forall>s. persisted st3 s @ buffered st3 s
                   = persisted st s @ buffered st s @ (if s = k then [r] else []))"
  proof
    assume n0: "n = 0"
    have "persisted st1 k = persisted st k" using 1(2) n0 by simp
    moreover have "\<forall>s. s \<notin> set pre \<longrightarrow>
        buffered st1 s = buffered st s \<and> persisted st1 s = persisted st s"
      using n0 by (simp add: b1 p1)
    moreover have "persisted st3 k = persisted st k @ buffered st k @ [r]"
      using p3 n0 by simp
    moreover have "\<forall>s. persisted st3 s @ buffered st3 s
                   = persisted st s @ buffered st s @ (if s = k then [r] else [])"
      using c n0 by simp
    ultimately show "persisted st1 k = persisted st k \<and>
            (\<forall>s. s \<notin> set pre \<longrightarrow> buffered st1 s = buffered st s \<and> persisted st1 s = persisted st s) \<and>
            persisted st3 k = persisted st k @ buffered st k @ [r] \<and>
            (\<forall>s. persisted st3 s @ buffered st3 s
                   = persisted st s @ buffered st s @ (if s = k then [r] else []))"
      by blast
  qed
  show ?thesis using 1 3 t1 5 p3 b3 c z by blast
qed

subsection \<open>The theorems on the sample runs and the sample state\<close>

theorem drained_batches_then_buffer_are_the_appends_witness:
  "str_of ''BTCUSDT'' \<in> set (map ascii_upper [str_of ''btcusdt'', str_of ''ethusdt'']) \<and>
   list_all writes_nothing_when_failing sample_run \<and>
   length (appended_rows sample_strftime (str_of ''BTCUSDT'') sample_run) = 3 \<and>
   length (drained_batches sample_strftime (str_of ''BTCUSDT'') sample_run
             (init_streamer ascii_upper [str_of ''btcusdt'', str_of ''ethusdt''] 0 60)) = 1 \<and>
   drained_batches sample_strftime (str_of ''BTCUSDT'') sample_run
       (init_streamer ascii_upper [str_of ''btcusdt'', str_of ''ethusdt''] 0 60)
     = cleared_batches sample_strftime (str_of ''BTCUSDT'') sample_run
         (init_streamer ascii_upper [str_of ''btcusdt'', str_of ''ethusdt''] 0 60) \<and>
   concat (drained_batches sample_strftime (str_of ''BTCUSDT'') sample_run
             (init_streamer ascii_upper [str_of ''btcusdt'', str_of ''ethusdt''] 0 60))
     @ buffered (run_sections sample_strftime sample_run
                   (init_streamer ascii_upper [str_of ''btcusdt'', str_of ''ethusdt''] 0 60))
         (str_of ''BTCUSDT'')
     = appended_rows sample_strftime (str_of ''BTCUSDT'') sample_run \<and>
   \<not> list_all writes_nothing_when_failing sample_run_partial \<and>
   length (cleared_batches sample_strftime (str_of ''BTCUSDT'') sample_run_partial
             (init_streamer ascii_upper [str_of ''btcusdt'', str_of ''ethusdt''] 0 60)) = 1 \<and>
   concat (cleared_batches sample_strftime (str_of ''BTCUSDT'') sample_run_partial
             (init_streamer ascii_upper [str_of ''btcusdt'', str_of ''ethusdt''] 0 60))
     @ buffered (run_sections sample_strftime sample_run_partial
                   (init_streamer ascii_upper [str_of ''btcusdt'', str_of ''ethusdt''] 0 60))
         (str_of ''BTCUSDT'')
     = appended_rows sample_strftime (str_of ''BTCUSDT'') sample_run_partial"
proof -
  have h: "str_of ''BTCUSDT'' \<in> set (map ascii_upper [str_of ''btcusdt'', str_of ''ethusdt''])"
    by (simp add: str_of_def ascii_upper_def)
  have w: "list_all writes_nothing_when_failing sample_run"
    by (simp add: sample_run_def)
  have nw: "\<not> list_all writes_nothing_when_failing sample_run_partial"
    by (simp add: sample_run_partial_def)
  have n: "length (appended_rows sample_strftime (str_of ''BTCUSDT'') sample_run) = 3"
    by (simp add: sample_eval)
  have d: "length (drained_batches sample_strftime (str_of ''BTCUSDT'') sample_run
             (init_streamer ascii_upper [str_of ''btcusdt'', str_of ''ethusdt''] 0 60)) = 1"
    by (simp add: sample_eval)
  have c: "length (cleared_batches sample_strftime (str_of ''BTCUSDT'') sample_run_partial
             (init_streamer ascii_upper [str_of ''btcusdt'', str_of ''ethusdt''] 0 60)) = 1"
    by (simp add: partial_eval)
  show ?thesis
    using h w nw n d c
      drained_batches_then_buffer_are_the_appends
        [OF h, of sample_strftime sample_run 0 60]
      drained_batches_then_buffer_are_the_appends
        [OF h, of sample_strftime sample_run_partial 0 60]
    by blast
qed

theorem lifetime_counter_is_persisted_plus_buffered_witness:
  "str_of ''BTCUSDT'' \<in> set (map ascii_upper [str_of ''btcusdt'', str_of ''ethusdt'']) \<and>
   list_all writes_nothing_when_failing sample_run \<and>
   counted (run_sections sample_strftime sample_run
              (init_streamer ascii_upper [str_of ''btcusdt'', str_of ''ethusdt''] 0 60))
     (str_of ''BTCUSDT'') = 3 \<and>
   counted (run_sections sample_strftime sample_run
              (init_streamer ascii_upper [str_of ''btcusdt'', str_of ''ethusdt''] 0 60))
     (str_of ''BTCUSDT'')
   = length (persisted (run_sections sample_strftime sample_run
              (init_streamer ascii_upper [str_of ''btcusdt'', str_of ''ethusdt''] 0 60))
              (str_of ''BTCUSDT''))
     + length (buffered (run_sections sample_strftime sample_run
              (init_streamer ascii_upper [str_of ''btcusdt'', str_of ''ethusdt''] 0 60))
              (str_of ''BTCUSDT'')) \<and>
   counted (run_sections sample_strftime sample_run_partial
              (init_streamer ascii_upper [str_of ''btcusdt'', str_of ''ethusdt''] 0 60))
     (str_of ''BTCUSDT'')
   = length (appended_rows sample_strftime (str_of ''BTCUSDT'') sample_run_partial) \<and>
   counted (run_sections sample_strftime sample_run_partial
              (init_streamer ascii_upper [str_of ''btcusdt'', str_of ''ethusdt''] 0 60))
     (str_of ''BTCUSDT'')
   \<le> counted (run_section sample_strftime
                (Ingest (str_of ''BTCUSDT'') [sample_trade (str_of ''BTCUSDT'') 1 3000])
                (run_sections sample_strftime sample_run_partial
                   (init_streamer ascii_upper [str_of ''btcusdt'', str_of ''ethusdt''] 0 60)))
       (str_of ''BTCUSDT'')"
proof -
  have h: "str_of ''BTCUSDT'' \<in> set (map ascii_upper [str_of ''btcusdt'', str_of ''ethusdt''])"
    by (simp add: str_of_def ascii_upper_def)
  have w: "list_all writes_nothing_when_failing sample_run"
    by (simp add: sample_run_def)
  have c: "counted (run_sections sample_strftime sample_run
              (init_streamer ascii_upper [str_of ''btcusdt'', str_of ''ethusdt''] 0 60))
     (str_of ''BTCUSDT'') = 3"
    by (simp add: sample_eval)
  show ?thesis
    using h w c
      lifetime_counter_is_persisted_plus_buffered
        [OF h, of sample_strftime sample_run 0 60 Stats]
      lifetime_counter_is_persisted_plus_buffered
        [OF h, of sample_strftime sample_run_partial 0 60
           "Ingest (str_of ''BTCUSDT'') [sample_trade (str_of ''BTCUSDT'') 1 3000]"]
    by blast
qed

theorem failed_flush_is_retried_from_the_buffer_witness:
  "dicts_ok sample_state \<and>
   symbols sample_state = [str_of ''BTCUSDT''] @ str_of ''ETHUSDT'' # [str_of ''SOLUSDT''] \<and>
   str_of ''ETHUSDT'' \<notin> set [str_of ''BTCUSDT''] \<and>
   buffered sample_state (str_of ''ETHUSDT'') = [20, 21] \<and>
   buffered
     (save_data_to_csv (\<lambda>s. if s = str_of ''BTCUSDT'' then Written else Failed 0) 100 sample_state)
     (str_of ''ETHUSDT'')
     = buffered sample_state (str_of ''ETHUSDT'') \<and>
   last_save_time
     (save_data_to_csv (\<lambda>s. if s = str_of ''BTCUSDT'' then Written else Failed 0) 100 sample_state)
     = last_save_time sample_state \<and>
   persisted
     (save_data_to_csv (\<lambda>_. Written) 200
        (append_row (str_of ''ETHUSDT'') 22
           (save_data_to_csv (\<lambda>s. if s = str_of ''BTCUSDT'' then Written else Failed 0) 100
              sample_state)))
     (str_of ''ETHUSDT'')
     = persisted sample_state (str_of ''ETHUSDT'') @ buffered sample_state (str_of ''ETHUSDT'') @ [22] \<and>
   persisted
     (save_data_to_csv (\<lambda>_. Written) 200
        (append_row (str_of ''ETHUSDT'') 22
           (save_data_to_csv (\<lambda>s. if s = str_of ''BTCUSDT'' then Written else Failed 1) 100
              sample_state)))
     (str_of ''ETHUSDT'')
     = persisted sample_state (str_of ''ETHUSDT'') @ take 1 (buffered sample_state (str_of ''ETHUSDT''))
       @ buffered sample_state (str_of ''ETHUSDT'') @ [22]"
proof -
  let ?sink = "\<lambda>n s. if s = str_of ''BTCUSDT'' then Written else Failed n"
  have h1: "dicts_ok sample_state"
    by (auto simp: dicts_ok_def sample_state_def)
  have h2: "symbols sample_state = [str_of ''BTCUSDT''] @ str_of ''ETHUSDT'' # [str_of ''SOLUSDT'']"
    by (simp add: sample_state_def)
  have h3: "str_of ''ETHUSDT'' \<notin> set [str_of ''BTCUSDT'']"
    by (simp add: str_of_def)
  have h4: "\<forall>s\<in>set [str_of ''BTCUSDT'']. ?sink n s = Written \<or> buffered sample_state s = []" for n
    by simp
  have b: "buffered sample_state (str_of ''ETHUSDT'') = [20, 21]"
    by (simp add: sample_state_def buffered_def str_of_def)
  have h5: "buffered sample_state (str_of ''ETHUSDT'') \<noteq> []" by (simp add: b)
  have h6: "?sink n (str_of ''ETHUSDT'') = Failed n" for n by (simp add: str_of_def)
  have h7: "\<forall>s::pystr. (\<lambda>_. Written) s = Written" by simp
  have z: "(0::nat) = 0" by simp
  show ?thesis
    using h1 h2 h3 b z
      failed_flush_is_retried_from_the_buffer
        [of sample_state "[str_of ''BTCUSDT'']" "str_of ''ETHUSDT''" "[str_of ''SOLUSDT'']"
            "?sink 0" 0 "\<lambda>_. Written" 100 22 200, OF h1 h2 h3 h4 h5 h6 h7]
      failed_flush_is_retried_from_the_buffer
        [of sample_state "[str_of ''BTCUSDT'']" "str_of ''ETHUSDT''" "[str_of ''SOLUSDT'']"
            "?sink 1" 1 "\<lambda>_. Written" 100 22 200, OF h1 h2 h3 h4 h5 h6 h7]
    by blast
qed

section \<open>Properties of routing\<close>

subsection \<open>Grouping the trades of a message by symbol\<close>

lemma dict_append_props:
  assumes "distinct (map fst d)"
  shows "distinct (map fst (dict_append k v d))"
    and "map_of (dict_append k v d) k'
           = (if k' = k then Some ((case map_of d k of None \<Rightarrow> [] | Some vs \<Rightarrow> vs) @ [v])
              else map_of d k')"
proof -
  have keys: "map fst (map (\<lambda>(k', vs). if k' = k then (k', vs @ [v]) else (k', vs)) d) = map fst d"
    by (induction d) auto
  show "distinct (map fst (dict_append k v d))"
  proof (cases "map_of d k")
    case None
    then have "k \<notin> fst ` set d" by (simp add: map_of_eq_None_iff)
    then show ?thesis using assms None by (simp add: dict_append_def)
  next
    case (Some vs)
    then show ?thesis using assms by (simp add: dict_append_def keys del: map_map)
  qed
  have upd: "map_of (map (\<lambda>(k', vs). if k' = k then (k', vs @ [v]) else (k', vs)) d) k'
               = (if k' = k then map_option (\<lambda>vs. vs @ [v]) (map_of d k) else map_of d k')"
    by (induction d) auto
  show "map_of (dict_append k v d) k'
           = (if k' = k then Some ((case map_of d k of None \<Rightarrow> [] | Some vs \<Rightarrow> vs) @ [v])
              else map_of d k')"
  proof (cases "map_of d k")
    case None
    then show ?thesis by (auto simp: dict_append_def map_add_def split: option.splits)
  next
    case (Some vs)
    then show ?thesis by (simp add: dict_append_def upd)
  qed
qed

text \<open>The trades of a list that a symbol's group receives.\<close>

lemma group_trades_props:
  assumes "distinct (map fst d)"
  shows "distinct (map fst (group_trades syms ts d)) \<and>
         (\<forall>k. (case map_of (group_trades syms ts d) k of None \<Rightarrow> [] | Some vs \<Rightarrow> vs)
                = (case map_of d k of None \<Rightarrow> [] | Some vs \<Rightarrow> vs)
                  @ (if k \<noteq> [] \<and> k \<in> set syms then filter (\<lambda>t. trade_symbol t = k) ts else []))"
  using assms
proof (induction ts arbitrary: d)
  case Nil
  then show ?case by simp
next
  case (Cons t ts)
  show ?case
  proof (cases "trade_symbol t \<noteq> [] \<and> trade_symbol t \<in> set syms")
    case True
    let ?d = "dict_append (trade_symbol t) t d"
    have e: "group_trades syms (t # ts) d = group_trades syms ts ?d" using True by simp
    note p = dict_append_props [OF Cons.prems, of "trade_symbol t" t]
    show ?thesis
      unfolding e using Cons.IH [OF p(1)] True by (auto simp: p(2))
  next
    case False
    then have e: "group_trades syms (t # ts) d = group_trades syms ts d" by auto
    show ?thesis
      unfolding e using Cons.IH [OF Cons.prems] False by auto
  qed
qed

lemma group_trades_none:
  "\<forall>t\<in>set ts. trade_symbol t = [] \<or> trade_symbol t \<notin> set syms \<Longrightarrow> group_trades syms ts d = d"
  by (induction ts arbitrary: d) auto

subsection \<open>Processing the groups\<close>

lemma process_groups_views:
  assumes "dicts_ok st" and "distinct (map fst g)"
  shows "buffered (foldl (\<lambda>st' (k, ts). locked_process_trades f k ts st') st g) k'
           = buffered st k' @ (if k' \<in> set (symbols st)
                               then List.map_filter (trade_data_row f)
                                      (case map_of g k' of None \<Rightarrow> [] | Some ts \<Rightarrow> ts)
                               else [])
         \<and> counted (foldl (\<lambda>st' (k, ts). locked_process_trades f k ts st') st g) k'
           = counted st k' + (if k' \<in> set (symbols st)
                              then length (List.map_filter (trade_data_row f)
                                      (case map_of g k' of None \<Rightarrow> [] | Some ts \<Rightarrow> ts))
                              else 0)
         \<and> persisted (foldl (\<lambda>st' (k, ts). locked_process_trades f k ts st') st g) k' = persisted st k'
         \<and> symbols (foldl (\<lambda>st' (k, ts). locked_process_trades f k ts st') st g) = symbols st
         \<and> dicts_ok (foldl (\<lambda>st' (k, ts). locked_process_trades f k ts st') st g)"
  using assms
proof (induction g arbitrary: st)
  case Nil
  then show ?case by simp
next
  case (Cons kt g)
  obtain k ts where kt: "kt = (k, ts)" by (cases kt)
  let ?s = "locked_process_trades f k ts st"
  note v = locked_process_trades_views [OF Cons.prems(1), of f k ts]
  have ok1: "dicts_ok ?s" using v [of k'] by simp
  have sy1: "symbols ?s = symbols st" using v [of k'] by simp
  have d: "distinct (map fst g)" and nk: "map_of g k = None"
    using Cons.prems(2) by (simp_all add: kt map_of_eq_None_iff)
  note ih = Cons.IH [OF ok1 d]
  have e: "foldl (\<lambda>st' (k, ts). locked_process_trades f k ts st') st (kt # g)
             = foldl (\<lambda>st' (k, ts). locked_process_trades f k ts st') ?s g"
    by (simp add: kt)
  show ?case
    unfolding e
    using ih v [of k'] nk by (auto simp: kt sy1)
qed

text \<open>Routing the trades of one message: every symbol's buffer receives its own trades.\<close>

lemma route_trades_views:
  assumes "dicts_ok st"
  shows "buffered (route_trades f trades st) k
           = buffered st k @ (if k \<noteq> [] \<and> k \<in> set (symbols st)
                              then List.map_filter (trade_data_row f)
                                     (filter (\<lambda>t. trade_symbol t = k) trades)
                              else [])"
    and "counted (route_trades f trades st) k
           = counted st k + (if k \<noteq> [] \<and> k \<in> set (symbols st)
                             then length (List.map_filter (trade_data_row f)
                                     (filter (\<lambda>t. trade_symbol t = k) trades))
                             else 0)"
    and "persisted (route_trades f trades st) k = persisted st k"
    and "dicts_ok (route_trades f trades st)"
    and "symbols (route_trades f trades st) = symbols st"
proof -
  let ?g = "group_trades (symbols st) trades []"
  have g: "distinct (map fst ?g)"
    "\<And>k. (case map_of ?g k of None \<Rightarrow> [] | Some vs \<Rightarrow> vs)
           = (if k \<noteq> [] \<and> k \<in> set (symbols st) then filter (\<lambda>t. trade_symbol t = k) trades else [])"
    using group_trades_props [of "[]" "symbols st" trades] by simp_all
  have r: "route_trades f trades st
             = foldl (\<lambda>st' (k, ts). locked_process_trades f k ts st') st ?g"
    by (cases trades) (simp_all add: route_trades_def)
  note v = process_groups_views [OF assms g(1), of f]
  show "buffered (route_trades f trades st) k
           = buffered st k @ (if k \<noteq> [] \<and> k \<in> set (symbols st)
                              then List.map_filter (trade_data_row f)
                                     (filter (\<lambda>t. trade_symbol t = k) trades)
                              else [])"
    unfolding r using v [of k] by (simp add: g(2))
  show "counted (route_trades f trades st) k
           = counted st k + (if k \<noteq> [] \<and> k \<in> set (symbols st)
                             then length (List.map_filter (trade_data_row f)
                                     (filter (\<lambda>t. trade_symbol t = k) trades))
                             else 0)"
    unfolding r using v [of k] by (simp add: g(2))
  show "persisted (route_trades f trades st) k = persisted st k"
    unfolding r using v [of k] by simp
  show "dicts_ok (route_trades f trades st)" unfolding r using v [of k] by simp
  show "symbols (route_trades f trades st) = symbols st" unfolding r using v [of k] by simp
qed

lemma route_trades_unrecognised:
  assumes "\<forall>t\<in>set trades. trade_symbol t = [] \<or> trade_symbol t \<notin> set (symbols st)"
  shows "route_trades f trades st = st"
  using group_trades_none [OF assms, of "[]"] by (simp add: route_trades_def)

subsection \<open>The symbol of the trades of a message\<close>

lemma parse_deals_symbol:
  "t \<in> set (parse_deals py_float clock msym chan i deals acc) \<Longrightarrow>
   t \<in> set acc \<or> trade_symbol t = msym"
proof (induction deals arbitrary: i acc)
  case Nil
  then show ?case by simp
next
  case (Cons d deals)
  from Cons.prems Cons.IH
  have "t \<in> set (case parse_deal py_float (clock i) msym chan d of None \<Rightarrow> acc | Some t \<Rightarrow> acc @ [t])
          \<or> trade_symbol t = msym"
    by auto
  then show ?case
    by (auto simp: parse_deal_def split: option.splits if_splits)
qed

lemma parse_trade_message_symbol:
  assumes "wrapper = Some w" and "t \<in> set (parse_trade_message py_float clock wrapper None)"
  shows "trade_symbol t = symbol w"
proof -
  from assms have "symbol w \<noteq> []"
    by (auto simp: parse_trade_message_def Let_def split: if_splits)
  with assms show ?thesis
    by (auto simp: parse_trade_message_def Let_def split: option.splits dest: parse_deals_symbol)
qed

subsection \<open>Routing by symbol\<close>

lemma process_ticker_data_views:
  assumes "dicts_ok st"
  shows "buffered (process_ticker_data f now_str td k st) k'
           = buffered st k' @ (if k' = k \<and> k \<in> set (symbols st)
                               then (case ticker_data_row f now_str td k of
                                       None \<Rightarrow> [] | Some data_row \<Rightarrow> [data_row])
                               else [])"
  using assms by (simp add: process_ticker_data_def append_row_views split: option.splits)

text \<open>
  Claim C6, as stated, fails. The streamer is configured with the symbol
  \<open>btcusdt\<close>, which start-up stores in upper case. A validated trade arrives whose decoded
  symbol is \<open>btcusdt\<close>: its upper-case form is configured, yet routing compares the symbol
  as decoded and drops the trade, leaving the whole state as it was.
\<close>

theorem symbol_case_is_not_normalised_counterexample:
  "ascii_upper (str_of ''btcusdt'')
     \<in> set (symbols (init_streamer ascii_upper [str_of ''btcusdt''] 0 60 :: trade_row streamer)) \<and>
   trade_data_row sample_strftime (sample_trade (str_of ''btcusdt'') 1 1000) \<noteq> None \<and>
   route_trades sample_strftime [sample_trade (str_of ''btcusdt'') 1 1000]
       (init_streamer ascii_upper [str_of ''btcusdt''] 0 60)
     = init_streamer ascii_upper [str_of ''btcusdt''] 0 60"
  by (simp add: route_trades_def init_streamer_def sample_trade_def sample_strftime_def
      trade_data_row_def str_of_def ascii_upper_def)

lemma map_filter_all_Some:
  "\<forall>x\<in>set xs. f x \<noteq> None \<Longrightarrow> map Some (List.map_filter f xs) = map f xs"
  by (induction xs) auto

lemma route_single_unbuilt:
  assumes "trade_data_row f t = None"
  shows "route_trades f [t] st = st"
  using assms
  by (simp add: route_trades_def dict_append_def locked_process_trades_def process_trade_def)

text \<open>
  Claim C6, amended. Routing takes the decoded symbol as it is, without changing its
  case, and compares it with the configured symbols, which start-up stored in upper
  case. In the trade streamer the rows built from the records of a message are
  appended, in order, to the buffer of exactly their own symbol when that symbol is not
  empty and is configured; the buffer of a symbol receives nothing else. The row of a
  record is built unless the formatting of its timestamp as a date raises: when it is
  built for every record of the message, the buffer of a configured symbol receives one
  row for each of its records, and a record whose row cannot be built is dropped with
  the state as it was. When no record of the message has a configured symbol the state
  stays as it is: nothing is appended, nothing is counted (the streamers keep no
  counter of dropped records) and no error arises; this is so for every message whose
  decoded symbol is not configured. The book-ticker streamer does the same with its
  single record, whose row is built unless its positive send time cannot be formatted.
\<close>

theorem records_are_routed_by_their_decoded_symbol:
  fixes st :: "trade_row streamer" and tst :: "ticker_row streamer"
  assumes "dicts_ok st" and "dicts_ok tst"
  shows "buffered (route_trades strftime trades st) k
           = buffered st k @ (if k \<noteq> [] \<and> k \<in> set (symbols st)
                              then List.map_filter (trade_data_row strftime)
                                     (filter (\<lambda>t. trade_symbol t = k) trades)
                              else []) \<and>
         ((\<forall>t\<in>set trades. trade_symbol t = [] \<or> trade_symbol t \<notin> set (symbols st))
            \<longrightarrow> route_trades strftime trades st = st) \<and>
         (symbol w \<notin> set (symbols st)
            \<longrightarrow> on_message py_float clock strftime (Some w) st = st) \<and>
         buffered (on_message_ticker py_float strftime now_str wrapper tst) k
           = buffered tst k
             @ (case parse_ticker_message py_float wrapper of
                  None \<Rightarrow> []
                | Some td \<Rightarrow>
                    if k = ticker_symbol td \<and> k \<noteq> [] \<and> k \<in> set (symbols tst)
                    then (case ticker_data_row strftime now_str td k of
                            None \<Rightarrow> [] | Some data_row \<Rightarrow> [data_row])
                    else []) \<and>
         (parse_ticker_message py_float wrapper = Some td \<and>
          (ticker_symbol td = [] \<or> ticker_symbol td \<notin> set (symbols tst))
            \<longrightarrow> on_message_ticker py_float strftime now_str wrapper tst = tst) \<and>
         (trade_data_row strftime t = None) = (strftime (trade_timestamp t) = None) \<and>
         (ticker_data_row strftime now_str td k = None)
           = (0 < ticker_timestamp td \<and> strftime (ticker_timestamp td) = None) \<and>
         ((\<forall>t\<in>set trades. strftime (trade_timestamp t) \<noteq> None) \<and>
          k \<noteq> [] \<and> k \<in> set (symbols st)
            \<longrightarrow> map Some (drop (length (buffered st k)) (buffered (route_trades strftime trades st) k))
                = map (trade_data_row strftime) (filter (\<lambda>t. trade_symbol t = k) trades)) \<and>
         (strftime (trade_timestamp t) = None \<longrightarrow> route_trades strftime [t] st = st)"
proof -
  have a: "buffered (route_trades strftime trades st) k
           = buffered st k @ (if k \<noteq> [] \<and> k \<in> set (symbols st)
                              then List.map_filter (trade_data_row strftime)
                                     (filter (\<lambda>t. trade_symbol t = k) trades)
                              else [])"
    by (rule route_trades_views(1) [OF assms(1)])
  have b: "(\<forall>t\<in>set trades. trade_symbol t = [] \<or> trade_symbol t \<notin> set (symbols st))
            \<longrightarrow> route_trades strftime trades st = st"
    using route_trades_unrecognised [of trades st strftime] by blast
  have c: "symbol w \<notin> set (symbols st) \<longrightarrow> on_message py_float clock strftime (Some w) st = st"
  proof
    assume n: "symbol w \<notin> set (symbols st)"
    have "\<forall>t\<in>set (parse_trade_message py_float clock (Some w) None).
            trade_symbol t = [] \<or> trade_symbol t \<notin> set (symbols st)"
      using parse_trade_message_symbol [of "Some w" w _ py_float clock] n by auto
    then show "on_message py_float clock strftime (Some w) st = st"
      unfolding on_message_def by (rule route_trades_unrecognised)
  qed
  have d: "buffered (on_message_ticker py_float strftime now_str wrapper tst) k
           = buffered tst k
             @ (case parse_ticker_message py_float wrapper of
                  None \<Rightarrow> []
                | Some td \<Rightarrow>
                    if k = ticker_symbol td \<and> k \<noteq> [] \<and> k \<in> set (symbols tst)
                    then (case ticker_data_row strftime now_str td k of
                            None \<Rightarrow> [] | Some data_row \<Rightarrow> [data_row])
                    else [])"
    by (auto simp: on_message_ticker_def process_ticker_data_views [OF assms(2)]
        split: option.splits)
  have e: "parse_ticker_message py_float wrapper = Some td \<and>
          (ticker_symbol td = [] \<or> ticker_symbol td \<notin> set (symbols tst))
            \<longrightarrow> on_message_ticker py_float strftime now_str wrapper tst = tst"
    by (auto simp: on_message_ticker_def)
  have f: "(trade_data_row strftime t = None) = (strftime (trade_timestamp t) = None)" for t
    by (simp add: trade_data_row_def split: option.splits)
  have g: "(ticker_data_row strftime now_str td k = None)
             = (0 < ticker_timestamp td \<and> strftime (ticker_timestamp td) = None)"
    by (simp add: ticker_data_row_def split: option.splits)
  have h: "(\<forall>t\<in>set trades. strftime (trade_timestamp t) \<noteq> None) \<and>
          k \<noteq> [] \<and> k \<in> set (symbols st)
            \<longrightarrow> map Some (drop (length (buffered st k)) (buffered (route_trades strftime trades st) k))
                = map (trade_data_row strftime) (filter (\<lambda>t. trade_symbol t = k) trades)"
  proof
    assume p: "(\<forall>t\<in>set trades. strftime (trade_timestamp t) \<noteq> None) \<and>
          k \<noteq> [] \<and> k \<in> set (symbols st)"
    then have "\<forall>t\<in>set (filter (\<lambda>t. trade_symbol t = k) trades). trade_data_row strftime t \<noteq> None"
      by (simp add: f)
    then have "map Some (List.map_filter (trade_data_row strftime)
                           (filter (\<lambda>t. trade_symbol t = k) trades))
                 = map (trade_data_row strftime) (filter (\<lambda>t. trade_symbol t = k) trades)"
      by (rule map_filter_all_Some)
    then show "map Some (drop (length (buffered st k)) (buffered (route_trades strftime trades st) k))
                = map (trade_data_row strftime) (filter (\<lambda>t. trade_symbol t = k) trades)"
      using p by (simp add: a)
  qed
  have i: "strftime (trade_timestamp t) = None \<longrightarrow> route_trades strftime [t] st = st"
    using route_single_unbuilt [of strftime t st] by (simp add: f)
  show ?thesis using a b c d e f g h i by blast
qed

section \<open>Properties of validation\<close>

subsection \<open>The rounding is to a nearest binary64 value\<close>

lemma bit_length_bounds:
  "0 < n \<Longrightarrow> 2 ^ (bit_length n - 1) \<le> n \<and> n < 2 ^ bit_length n"
proof (induction n rule: bit_length.induct)
  case (1 n)
  have bl: "bit_length n = Suc (bit_length (n div 2))"
    using "1.prems" by (subst bit_length.simps) simp
  show ?case
  proof (cases "n div 2 = 0")
    case True
    then have "bit_length (n div 2) = 0" by (simp add: bit_length.simps)
    moreover have "n = 1" using True "1.prems" by (simp add: div_eq_0_iff)
    ultimately show ?thesis unfolding bl by simp
  next
    case False
    then have pos: "0 < n div 2" by simp
    have n0: "n \<noteq> 0" using "1.prems" by simp
    from "1.IH" [OF n0 pos]
    have ih: "2 ^ (bit_length (n div 2) - 1) \<le> n div 2" "n div 2 < 2 ^ bit_length (n div 2)"
      by simp_all
    have k: "0 < bit_length (n div 2)"
      using pos by (subst bit_length.simps) simp
    define k where "k = bit_length (n div 2)"
    define h where "h = n div 2"
    have kk: "0 < k" using k by (simp add: k_def)
    have p: "(2::nat) ^ k = 2 * 2 ^ (k - 1)" using kk by (cases k) simp_all
    have lo: "2 ^ (k - 1) \<le> h" and hi: "h < 2 ^ k" using ih by (simp_all add: k_def h_def)
    have n1: "2 * h \<le> n" and n2: "n \<le> 2 * h + 1" unfolding h_def by presburger+
    have a: "(2::nat) ^ k \<le> n" using lo n1 p by linarith
    have b: "n < 2 * 2 ^ k" using hi n2 by linarith
    show ?thesis unfolding bl using a b by (simp add: k_def)
  qed
qed

lemma pow2_nonneg_exp: "pow2 (int k) = 2 ^ k"
  by (simp add: pow2_def)

lemma pow2_neg_exp: "pow2 (- int k) = 1 / 2 ^ k"
  by (auto simp: pow2_def)

lemma floor_log2_bounds:
  assumes "0 < a"
  shows "pow2 (floor_log2 a) \<le> a \<and> a < pow2 (floor_log2 a + 1)"
proof (cases "1 \<le> a")
  case True
  define n where "n = nat \<lfloor>a\<rfloor>"
  have n1: "0 < n" using True by (simp add: n_def)
  have nle: "real n \<le> a" using True by (simp add: n_def)
  have alt: "a < real n + 1" using True by (simp add: n_def)
  from bit_length_bounds [OF n1]
  have b: "2 ^ (bit_length n - 1) \<le> n" "n < 2 ^ bit_length n" by simp_all
  have k: "0 < bit_length n" using n1 by (subst bit_length.simps) simp
  have e: "floor_log2 a = int (bit_length n - 1)"
    using True k by (simp add: floor_log2_def n_def [symmetric])
  have e1: "floor_log2 a + 1 = int (bit_length n)"
    using k unfolding e by simp
  have lo: "pow2 (floor_log2 a) \<le> a"
  proof -
    have "(2::real) ^ (bit_length n - 1) \<le> real n"
      using b(1) by (metis of_nat_le_iff of_nat_numeral of_nat_power)
    then show ?thesis unfolding e pow2_nonneg_exp using nle by linarith
  qed
  have hi: "a < pow2 (floor_log2 a + 1)"
  proof -
    have "n + 1 \<le> 2 ^ bit_length n" using b(2) by simp
    then have "real (n + 1) \<le> (2::real) ^ bit_length n"
      by (metis of_nat_le_iff of_nat_numeral of_nat_power)
    then show ?thesis unfolding e1 pow2_nonneg_exp using alt by simp
  qed
  show ?thesis using lo hi by simp
next
  case False
  define b where "b = 1 / a"
  have b1: "1 < b" using False assms by (simp add: b_def)
  define n where "n = nat (\<lceil>b\<rceil> - 1)"
  have cb: "2 \<le> \<lceil>b\<rceil>" using b1 by (simp add: le_ceiling_iff)
  have n1: "0 < n" using cb by (simp add: n_def)
  have rn: "real n = of_int \<lceil>b\<rceil> - 1" using cb by (simp add: n_def)
  have ble: "b \<le> real n + 1" unfolding rn by simp
  have bgt: "real n < b" unfolding rn by linarith
  from bit_length_bounds [OF n1]
  have bb: "2 ^ (bit_length n - 1) \<le> n" "n < 2 ^ bit_length n" by simp_all
  define k where "k = bit_length n"
  have k: "0 < k" using n1 unfolding k_def by (subst bit_length.simps) simp
  have e: "floor_log2 a = - int k"
    using False by (simp add: floor_log2_def b_def [symmetric] n_def [symmetric] k_def)
  have up: "b \<le> 2 ^ k"
  proof -
    have "n + 1 \<le> 2 ^ k" using bb(2) by (simp add: k_def)
    then have "real (n + 1) \<le> (2::real) ^ k"
      by (metis of_nat_le_iff of_nat_numeral of_nat_power)
    then show ?thesis using ble by simp
  qed
  have dn: "2 ^ (k - 1) < b"
  proof -
    have "(2::real) ^ (k - 1) \<le> real n"
      using bb(1) unfolding k_def by (metis of_nat_le_iff of_nat_numeral of_nat_power)
    then show ?thesis using bgt by linarith
  qed
  have ab: "a = 1 / b" using assms by (simp add: b_def)
  have lo: "pow2 (floor_log2 a) \<le> a"
  proof -
    have "1 / 2 ^ k \<le> 1 / b" using up b1 by (intro divide_left_mono) simp_all
    then have "1 / 2 ^ k \<le> a" by (simp only: ab)
    then show ?thesis unfolding e pow2_neg_exp .
  qed
  have hi: "a < pow2 (floor_log2 a + 1)"
  proof -
    have e1: "floor_log2 a + 1 = - int (k - 1)" using k unfolding e by simp
    have "1 / b < 1 / 2 ^ (k - 1)" using dn b1 by (intro divide_strict_left_mono) simp_all
    then have "a < 1 / 2 ^ (k - 1)" by (simp only: ab)
    then show ?thesis unfolding e1 pow2_neg_exp .
  qed
  show ?thesis using lo hi by simp
qed

lemma pow2_pos: "0 < pow2 k"
  by (simp add: pow2_def)

lemma round_half_even_near: "\<bar>of_int (round_half_even y) - y\<bar> \<le> 1 / 2"
proof -
  have "of_int \<lfloor>y\<rfloor> \<le> y" "y < of_int \<lfloor>y\<rfloor> + 1" by linarith+
  then show ?thesis by (auto simp: round_half_even_def Let_def)
qed

text \<open>A finite result is a multiple of the unit in the last place, at most half a unit away.\<close>

lemma round_binary64_near:
  assumes "round_binary64 x = Finite v" and "x \<noteq> 0"
  defines "ulp \<equiv> pow2 (max (floor_log2 \<bar>x\<bar>) (- 1022) - 52)"
  shows "\<bar>v - x\<bar> \<le> ulp / 2" and "\<exists>m::int. v = of_int m * ulp"
proof -
  define m where "m = round_half_even (\<bar>x\<bar> / ulp)"
  have u: "0 < ulp" unfolding ulp_def by (rule pow2_pos)
  have v: "v = (if 0 < x then of_int m * ulp else - (of_int m * ulp))"
    using assms(1,2) unfolding round_binary64_def Let_def m_def ulp_def
    by (simp split: if_splits)
  have "\<bar>of_int m - \<bar>x\<bar> / ulp\<bar> \<le> 1 / 2" unfolding m_def by (rule round_half_even_near)
  then have "\<bar>of_int m - \<bar>x\<bar> / ulp\<bar> * ulp \<le> 1 / 2 * ulp"
    using u by (intro mult_right_mono) simp_all
  moreover have "\<bar>of_int m - \<bar>x\<bar> / ulp\<bar> * ulp = \<bar>of_int m * ulp - \<bar>x\<bar>\<bar>"
  proof -
    have "\<bar>of_int m - \<bar>x\<bar> / ulp\<bar> * ulp = \<bar>(of_int m - \<bar>x\<bar> / ulp) * ulp\<bar>"
      using u by (simp add: abs_mult)
    also have "(of_int m - \<bar>x\<bar> / ulp) * ulp = of_int m * ulp - \<bar>x\<bar>"
      using u by (simp add: left_diff_distrib)
    finally show ?thesis .
  qed
  ultimately have d: "\<bar>of_int m * ulp - \<bar>x\<bar>\<bar> \<le> ulp / 2" by simp
  show "\<bar>v - x\<bar> \<le> ulp / 2"
  proof (cases "0 < x")
    case True
    then show ?thesis using d v by simp
  next
    case False
    then have "x < 0" using assms(2) by simp
    then show ?thesis using d v by (simp add: abs_if split: if_splits)
  qed
  show "\<exists>m::int. v = of_int m * ulp"
  proof (cases "0 < x")
    case True
    then show ?thesis using v by auto
  next
    case False
    then have "v = of_int (- m) * ulp" using v by simp
    then show ?thesis by blast
  qed
qed

subsection \<open>Rounding of the values the examples need\<close>

lemmas round_eval = round_binary64_def pow2_def round_half_even_def Let_def

lemma log2_5_0005: "floor_log2 (50005 / 10000) = 2"
  by (simp add: floor_log2_def bit_length.simps)

lemma round_5_0005: "round_binary64 (50005 / 10000) = Finite (5630062484166541 / 2 ^ 50)"
  using log2_5_0005 by (simp add: round_eval)

lemma log2_diff: "floor_log2 \<bar>5630062484166541 / 2 ^ 50 - 5\<bar> = - 11"
  by (simp add: floor_log2_def bit_length.simps)

lemma round_diff:
  "round_binary64 (5630062484166541 / 2 ^ 50 - 5) = Finite (562949953421 / 2 ^ 50)"
  using log2_diff by (simp add: round_eval)

lemma log2_0_001: "floor_log2 (1 / 1000) = - 10"
  by (simp add: floor_log2_def bit_length.simps)

lemma round_0_001: "round_binary64 (1 / 1000) = Finite (1152921504606847 / 2 ^ 60)"
  using log2_0_001 by (simp add: round_eval)

lemma log2_1: "floor_log2 1 = 0"
  by (simp add: floor_log2_def bit_length.simps)

lemma round_1: "round_binary64 1 = Finite 1"
  using log2_1 by (simp add: round_eval)

lemma log2_0_01: "floor_log2 (1 / 100) = - 7"
  by (simp add: floor_log2_def bit_length.simps)

lemma round_0_01: "round_binary64 (1 / 100) = Finite (5764607523034235 / 2 ^ 59)"
  using log2_0_01 by (simp add: round_eval)

lemma log2_back: "floor_log2 (5764607523034235 / 2 ^ 59 * 100) = 0"
  by (simp add: floor_log2_def bit_length.simps)

lemma round_back: "round_binary64 (5764607523034235 / 2 ^ 59 * 100) = Finite 1"
  using log2_back by (simp add: round_eval)

lemma sub_5_0005: "py_sub (round_binary64 (50005 / 10000)) (Finite 5) = Finite (562949953421 / 2 ^ 50)"
  unfolding round_5_0005 py_sub.simps by (rule round_diff)

lemma deal_valid_5_5: "deal_valid (Finite 5) (Finite 5) = False"
  by (simp add: deal_valid_def)

lemma deal_valid_5_0005: "deal_valid (round_binary64 (50005 / 10000)) (Finite 5) = False"
  unfolding deal_valid_def sub_5_0005 round_0_001 by simp

lemma deal_valid_100_2: "deal_valid (Finite 100) (Finite 2) = True"
proof -
  have l: "floor_log2 98 = 6" by (simp add: floor_log2_def bit_length.simps)
  have "round_binary64 98 = Finite 98" using l by (simp add: round_eval)
  then have "py_sub (Finite 100) (Finite 2) = Finite 98" by simp
  then show ?thesis unfolding deal_valid_def round_0_001 by simp
qed

lemma spread_101_100: "ticker_spread (Finite 101) (Finite 100) = Finite 1"
  by (simp add: ticker_spread_def round_1)

lemma spread_percent_101_100: "ticker_spread_percent (Finite 1) (Finite 100) = Some (Finite 1)"
proof -
  have "py_truediv (Finite 1) (Finite 100) = Some (Finite (5764607523034235 / 2 ^ 59))"
    by (simp add: round_0_01)
  moreover have "py_mul (Finite (5764607523034235 / 2 ^ 59)) (Finite 100) = Finite 1"
    unfolding py_mul.simps by (rule round_back)
  ultimately show ?thesis by (simp add: ticker_spread_percent_def)
qed

subsection \<open>Validation of deals\<close>

lemma round_binary64_0: "round_binary64 0 = Finite 0"
  by (simp add: round_binary64_def)

lemma parse_deal_Some:
  "(parse_deal py_float now msym chan deal = Some t)
     = (\<exists>p q. py_float (price deal) = Some p \<and> py_float (quantity deal) = Some q \<and>
              deal_valid p q \<and>
              t = \<lparr>trade_price = p, trade_quantity = q, trade_type = tradeType deal,
                    trade_symbol = msym, trade_channel = chan,
                    trade_timestamp = (if time deal > 0 then time deal else now)\<rparr>)"
  by (auto simp: parse_deal_def split: option.splits)

lemma parse_deals_acc:
  "parse_deals py_float clock msym chan i deals acc
     = acc @ List.map_filter (\<lambda>(j, d). parse_deal py_float (clock j) msym chan d)
               (List.enumerate i deals)"
  by (induction deals arbitrary: i acc) (simp_all split: option.splits)

lemma labels_differ: "str_of ''BUY'' \<noteq> str_of ''SELL''"
  by (simp add: str_of_def)

text \<open>
  Claim C4. A decoded deal is accepted exactly when its price and its quantity parse
  to floats that are both strictly positive, differ, and whose difference, as the float
  subtraction gives it, has an absolute value above the float \<open>0.001\<close>; the loop over the
  deals of a message keeps the accepted ones, in order. The row of an accepted deal is
  labelled \<open>BUY\<close> exactly when the trade type is 1 and \<open>SELL\<close> otherwise. A deal with price
  5.0 and quantity 5.0 is rejected, and so is one with price 5.0005 and quantity 5.0.
\<close>

theorem deal_is_accepted_iff_valid:
  "(parse_deal py_float now msym chan deal \<noteq> None)
     = (\<exists>p q. py_float (price deal) = Some p \<and> py_float (quantity deal) = Some q \<and>
              py_gt p (Finite 0) \<and> py_gt q (Finite 0) \<and> py_ne p q \<and>
              py_gt (py_abs (py_sub p q)) (round_binary64 (1 / 1000))) \<and>
   parse_deals py_float clock msym chan 0 deals []
     = List.map_filter (\<lambda>(i, d). parse_deal py_float (clock i) msym chan d) (List.enumerate 0 deals) \<and>
   (parse_deal py_float now msym chan deal = Some t \<and> trade_data_row strftime t = Some data_row
      \<longrightarrow> (row_trade_type_str data_row = str_of ''BUY'') = (tradeType deal = 1) \<and>
          (row_trade_type_str data_row = str_of ''SELL'') = (tradeType deal \<noteq> 1)) \<and>
   (py_float (price deal) = Some (Finite 5) \<and> py_float (quantity deal) = Some (Finite 5)
      \<longrightarrow> parse_deal py_float now msym chan deal = None) \<and>
   (py_float (price deal) = Some (round_binary64 (50005 / 10000)) \<and>
    py_float (quantity deal) = Some (Finite 5)
      \<longrightarrow> parse_deal py_float now msym chan deal = None)"
proof -
  have a: "(parse_deal py_float now msym chan deal \<noteq> None)
     = (\<exists>p q. py_float (price deal) = Some p \<and> py_float (quantity deal) = Some q \<and>
              py_gt p (Finite 0) \<and> py_gt q (Finite 0) \<and> py_ne p q \<and>
              py_gt (py_abs (py_sub p q)) (round_binary64 (1 / 1000)))"
    by (auto simp: parse_deal_def deal_valid_def split: option.splits)
  have b: "parse_deals py_float clock msym chan 0 deals []
     = List.map_filter (\<lambda>(i, d). parse_deal py_float (clock i) msym chan d) (List.enumerate 0 deals)"
    by (simp add: parse_deals_acc)
  have c: "parse_deal py_float now msym chan deal = Some t \<and> trade_data_row strftime t = Some data_row
      \<longrightarrow> (row_trade_type_str data_row = str_of ''BUY'') = (tradeType deal = 1) \<and>
          (row_trade_type_str data_row = str_of ''SELL'') = (tradeType deal \<noteq> 1)"
    using labels_differ
    by (auto simp: parse_deal_Some trade_data_row_def split: option.splits)
  have d: "py_float (price deal) = Some (Finite 5) \<and> py_float (quantity deal) = Some (Finite 5)
      \<longrightarrow> parse_deal py_float now msym chan deal = None"
    by (simp add: parse_deal_def deal_valid_5_5)
  have e: "py_float (price deal) = Some (round_binary64 (50005 / 10000)) \<and>
    py_float (quantity deal) = Some (Finite 5)
      \<longrightarrow> parse_deal py_float now msym chan deal = None"
    using deal_valid_5_0005 by (simp add: parse_deal_def)
  show ?thesis using a b c d e by blast
qed

lemma sample_float_values:
  "sample_float (str_of ''5.0'') = Some (Finite 5)"
  "sample_float (str_of ''5.0005'') = Some (round_binary64 (50005 / 10000))"
  "sample_float (str_of ''100.0'') = Some (Finite 100)"
  "sample_float (str_of ''101.0'') = Some (Finite 101)"
  "sample_float (str_of ''2.0'') = Some (Finite 2)"
  "sample_float (str_of ''1.0'') = Some (Finite 1)"
  by (simp_all add: sample_float_def str_of_def)

text \<open>
  Claim C10. The row buffered for an accepted deal carries the deal's time as its
  timestamp when that time is strictly positive, and the reading of the wall clock, in
  milliseconds, taken while the deal is handled when the time is zero or negative. The
  time plays no part in the acceptance: a deal is accepted with any value of its time
  field exactly when it is accepted with any other.
\<close>

theorem row_timestamp_is_deal_time_or_clock:
  "(parse_deal py_float now msym chan deal = Some t \<and> trade_data_row strftime t = Some data_row
      \<longrightarrow> row_timestamp data_row = (if 0 < time deal then time deal else now)) \<and>
   (dicts_ok st \<and> k \<in> set (symbols st) \<and> trade_data_row strftime t = Some data_row
      \<longrightarrow> buffered (process_trade strftime t k st) k = buffered st k @ [data_row]) \<and>
   (parse_deal py_float now msym chan (deal\<lparr>time := x\<rparr>) = None)
     = (parse_deal py_float now msym chan deal = None)"
proof -
  have a: "parse_deal py_float now msym chan deal = Some t \<and> trade_data_row strftime t = Some data_row
      \<longrightarrow> row_timestamp data_row = (if 0 < time deal then time deal else now)"
    by (auto simp: parse_deal_Some trade_data_row_def split: option.splits)
  have b: "dicts_ok st \<and> k \<in> set (symbols st) \<and> trade_data_row strftime t = Some data_row
      \<longrightarrow> buffered (process_trade strftime t k st) k = buffered st k @ [data_row]"
    using process_trade_views(1) [of st strftime t k k] by auto
  have c: "(parse_deal py_float now msym chan (deal\<lparr>time := x\<rparr>) = None)
     = (parse_deal py_float now msym chan deal = None)"
    by (simp add: parse_deal_def split: option.splits)
  show ?thesis using a b c by blast
qed

subsection \<open>Validation of book tickers\<close>

lemma py_truediv_defined: "py_gt b (Finite 0) \<Longrightarrow> \<exists>x. py_truediv a b = Some x"
  by (cases b; cases a) auto

lemma spread_percent_defined: "\<exists>x. ticker_spread_percent sp bid = Some x"
proof (cases "py_gt bid (Finite 0)")
  case True
  from py_truediv_defined [OF True, of sp] obtain x where "py_truediv sp bid = Some x" by blast
  then show ?thesis using True by (simp add: ticker_spread_percent_def)
next
  case False
  then show ?thesis by (simp add: ticker_spread_percent_def)
qed

lemma py_truediv_zero: "py_gt b (Finite 0) \<Longrightarrow> py_truediv (Finite 0) b = Some (Finite 0)"
  by (cases b) (auto simp: round_binary64_0)

lemma spread_defaults:
  assumes "\<not> (py_gt ask (Finite 0) \<and> py_gt bid (Finite 0))"
  shows "ticker_spread ask bid = Finite 0"
    and "ticker_spread_percent (ticker_spread ask bid) bid = Some (Finite 0)"
proof -
  show s: "ticker_spread ask bid = Finite 0" using assms by (auto simp: ticker_spread_def)
  show "ticker_spread_percent (ticker_spread ask bid) bid = Some (Finite 0)"
    unfolding s
    by (cases "py_gt bid (Finite 0)")
       (simp_all add: ticker_spread_percent_def py_truediv_zero round_binary64_0)
qed

lemma parse_ticker_message_Some:
  "(parse_ticker_message py_float (Some w) = Some td)
     = (\<exists>bt bid bidq ask askq spp.
          publicAggreBookTicker w = Some bt \<and>
          float_or_zero py_float (bidPrice bt) = Some bid \<and>
          float_or_zero py_float (bidQuantity bt) = Some bidq \<and>
          float_or_zero py_float (askPrice bt) = Some ask \<and>
          float_or_zero py_float (askQuantity bt) = Some askq \<and>
          ticker_spread_percent (ticker_spread ask bid) bid = Some spp \<and>
          ticker_valid bid bidq ask askq \<and>
          td = \<lparr>ticker_symbol = symbol w, bid_price = bid, bid_quantity = bidq,
                 ask_price = ask, ask_quantity = askq, spread = ticker_spread ask bid,
                 spread_percent = spp, ticker_channel = channel w,
                 ticker_timestamp = sendTime w\<rparr>)"
  by (auto simp: parse_ticker_message_def Let_def bind_eq_Some_conv split: option.splits if_splits)

text \<open>
  Claim C5, as stated, fails in its last part. With a bid price of 100.0, an ask price
  of 101.0, an ask quantity of 1.0 and a bid quantity of 0.0 the positivity test of the
  four values fails, yet the spread computed is 1.0 and the spread percentage is 1.0:
  neither has taken the default 0.0.
\<close>

theorem spread_default_counterexample:
  "\<not> ticker_valid (Finite 100) (Finite 0) (Finite 101) (Finite 1) \<and>
   ticker_spread (Finite 101) (Finite 100) = Finite 1 \<and>
   ticker_spread_percent (ticker_spread (Finite 101) (Finite 100)) (Finite 100) = Some (Finite 1)"
  by (simp add: ticker_valid_def spread_101_100 spread_percent_101_100)

text \<open>
  Claim C5, amended. A record is produced for a decoded snapshot exactly when the four
  of bid price, bid quantity, ask price and ask quantity parse (an empty string as 0.0)
  to strictly positive floats. The record carries the spread, the float difference of
  ask price and bid price, and the spread percentage, the spread divided by the bid
  price and multiplied by 100. The spread and the percentage are both 0.0 whenever the
  bid price or the ask price is not strictly positive; a quantity that is not positive
  leaves them as computed, and then no record is produced. For a bid of 100.0 and an
  ask of 101.0, with quantities 1.0, the record has spread 1.0 and percentage 1.0.
\<close>

theorem ticker_is_accepted_iff_positive:
  "(parse_ticker_message py_float (Some w) \<noteq> None)
     = (\<exists>bt bid bidq ask askq.
          publicAggreBookTicker w = Some bt \<and>
          float_or_zero py_float (bidPrice bt) = Some bid \<and>
          float_or_zero py_float (bidQuantity bt) = Some bidq \<and>
          float_or_zero py_float (askPrice bt) = Some ask \<and>
          float_or_zero py_float (askQuantity bt) = Some askq \<and>
          py_gt bid (Finite 0) \<and> py_gt bidq (Finite 0) \<and>
          py_gt ask (Finite 0) \<and> py_gt askq (Finite 0)) \<and>
   parse_ticker_message py_float None = None \<and>
   (parse_ticker_message py_float (Some w) = Some td
      \<longrightarrow> spread td = py_sub (ask_price td) (bid_price td) \<and>
          map_option (\<lambda>x. py_mul x (Finite 100)) (py_truediv (spread td) (bid_price td))
            = Some (spread_percent td)) \<and>
   (\<not> (py_gt ask (Finite 0) \<and> py_gt bid (Finite 0))
      \<longrightarrow> ticker_spread ask bid = Finite 0 \<and>
          ticker_spread_percent (ticker_spread ask bid) bid = Some (Finite 0)) \<and>
   (publicAggreBookTicker w = Some bt \<and>
    float_or_zero py_float (bidPrice bt) = Some (Finite 100) \<and>
    float_or_zero py_float (bidQuantity bt) = Some (Finite 1) \<and>
    float_or_zero py_float (askPrice bt) = Some (Finite 101) \<and>
    float_or_zero py_float (askQuantity bt) = Some (Finite 1)
      \<longrightarrow> (\<exists>td. parse_ticker_message py_float (Some w) = Some td \<and>
                spread td = Finite 1 \<and> spread_percent td = Finite 1))"
proof -
  have a: "(parse_ticker_message py_float (Some w) \<noteq> None)
     = (\<exists>bt bid bidq ask askq.
          publicAggreBookTicker w = Some bt \<and>
          float_or_zero py_float (bidPrice bt) = Some bid \<and>
          float_or_zero py_float (bidQuantity bt) = Some bidq \<and>
          float_or_zero py_float (askPrice bt) = Some ask \<and>
          float_or_zero py_float (askQuantity bt) = Some askq \<and>
          py_gt bid (Finite 0) \<and> py_gt bidq (Finite 0) \<and>
          py_gt ask (Finite 0) \<and> py_gt askq (Finite 0))"
  proof
    assume "parse_ticker_message py_float (Some w) \<noteq> None"
    then obtain td where "parse_ticker_message py_float (Some w) = Some td" by blast
    then show "\<exists>bt bid bidq ask askq.
          publicAggreBookTicker w = Some bt \<and>
          float_or_zero py_float (bidPrice bt) = Some bid \<and>
          float_or_zero py_float (bidQuantity bt) = Some bidq \<and>
          float_or_zero py_float (askPrice bt) = Some ask \<and>
          float_or_zero py_float (askQuantity bt) = Some askq \<and>
          py_gt bid (Finite 0) \<and> py_gt bidq (Finite 0) \<and>
          py_gt ask (Finite 0) \<and> py_gt askq (Finite 0)"
      unfolding parse_ticker_message_Some ticker_valid_def by blast
  next
    assume "\<exists>bt bid bidq ask askq.
          publicAggreBookTicker w = Some bt \<and>
          float_or_zero py_float (bidPrice bt) = Some bid \<and>
          float_or_zero py_float (bidQuantity bt) = Some bidq \<and>
          float_or_zero py_float (askPrice bt) = Some ask \<and>
          float_or_zero py_float (askQuantity bt) = Some askq \<and>
          py_gt bid (Finite 0) \<and> py_gt bidq (Finite 0) \<and>
          py_gt ask (Finite 0) \<and> py_gt askq (Finite 0)"
    then obtain bt bid bidq ask askq where h:
      "publicAggreBookTicker w = Some bt"
      "float_or_zero py_float (bidPrice bt) = Some bid"
      "float_or_zero py_float (bidQuantity bt) = Some bidq"
      "float_or_zero py_float (askPrice bt) = Some ask"
      "float_or_zero py_float (askQuantity bt) = Some askq"
      "ticker_valid bid bidq ask askq"
      unfolding ticker_valid_def by blast
    obtain spp where "ticker_spread_percent (ticker_spread ask bid) bid = Some spp"
      using spread_percent_defined by blast
    with h have "\<exists>td. parse_ticker_message py_float (Some w) = Some td"
      unfolding parse_ticker_message_Some by blast
    then show "parse_ticker_message py_float (Some w) \<noteq> None" by auto
  qed
  have b: "parse_ticker_message py_float None = None"
    by (simp add: parse_ticker_message_def)
  have c: "parse_ticker_message py_float (Some w) = Some td
      \<longrightarrow> spread td = py_sub (ask_price td) (bid_price td) \<and>
          map_option (\<lambda>x. py_mul x (Finite 100)) (py_truediv (spread td) (bid_price td))
            = Some (spread_percent td)"
    unfolding parse_ticker_message_Some
    by (auto simp: ticker_valid_def ticker_spread_def ticker_spread_percent_def)
  have d: "\<not> (py_gt ask (Finite 0) \<and> py_gt bid (Finite 0))
      \<longrightarrow> ticker_spread ask bid = Finite 0 \<and>
          ticker_spread_percent (ticker_spread ask bid) bid = Some (Finite 0)"
    using spread_defaults [of ask bid] by blast
  have e: "publicAggreBookTicker w = Some bt \<and>
    float_or_zero py_float (bidPrice bt) = Some (Finite 100) \<and>
    float_or_zero py_float (bidQuantity bt) = Some (Finite 1) \<and>
    float_or_zero py_float (askPrice bt) = Some (Finite 101) \<and>
    float_or_zero py_float (askQuantity bt) = Some (Finite 1)
      \<longrightarrow> (\<exists>td. parse_ticker_message py_float (Some w) = Some td \<and>
                spread td = Finite 1 \<and> spread_percent td = Finite 1)"
  proof
    assume h: "publicAggreBookTicker w = Some bt \<and>
      float_or_zero py_float (bidPrice bt) = Some (Finite 100) \<and>
      float_or_zero py_float (bidQuantity bt) = Some (Finite 1) \<and>
      float_or_zero py_float (askPrice bt) = Some (Finite 101) \<and>
      float_or_zero py_float (askQuantity bt) = Some (Finite 1)"
    have v: "ticker_valid (Finite 100) (Finite 1) (Finite 101) (Finite 1)"
      by (simp add: ticker_valid_def)
    have p: "ticker_spread_percent (ticker_spread (Finite 101) (Finite 100)) (Finite 100)
               = Some (Finite 1)"
      by (simp add: spread_101_100 spread_percent_101_100)
    let ?td = "\<lparr>ticker_symbol = symbol w, bid_price = Finite 100, bid_quantity = Finite 1,
                 ask_price = Finite 101, ask_quantity = Finite 1,
                 spread = ticker_spread (Finite 101) (Finite 100),
                 spread_percent = Finite 1, ticker_channel = channel w,
                 ticker_timestamp = sendTime w\<rparr>"
    have "parse_ticker_message py_float (Some w) = Some ?td"
      unfolding parse_ticker_message_Some using h v p by blast
    then show "\<exists>td. parse_ticker_message py_float (Some w) = Some td \<and>
                spread td = Finite 1 \<and> spread_percent td = Finite 1"
      by (simp add: spread_101_100)
  qed
  show ?thesis using a b c d e by blast
qed

section \<open>Routing and validation on the sample values\<close>

theorem records_are_routed_by_their_decoded_symbol_witness:
  "dicts_ok (init_streamer ascii_upper [str_of ''btcusdt'', str_of ''ethusdt''] 0 60 :: trade_row streamer) \<and>
   dicts_ok (init_streamer ascii_upper [str_of ''btcusdt''] 0 60 :: ticker_row streamer) \<and>
   length (buffered
     (route_trades sample_strftime
        [sample_trade (str_of ''BTCUSDT'') 1 1000, sample_trade (str_of ''XRPUSDT'') 1 1500,
         sample_trade (str_of ''ETHUSDT'') 2 2000, sample_trade (str_of ''BTCUSDT'') 2 3000]
        (init_streamer ascii_upper [str_of ''btcusdt'', str_of ''ethusdt''] 0 60))
     (str_of ''BTCUSDT'')) = 2 \<and>
   route_trades sample_strftime [sample_trade (str_of ''XRPUSDT'') 1 1500]
       (init_streamer ascii_upper [str_of ''btcusdt'', str_of ''ethusdt''] 0 60)
     = init_streamer ascii_upper [str_of ''btcusdt'', str_of ''ethusdt''] 0 60 \<and>
   symbol sample_wrapper
     \<notin> set (symbols (init_streamer ascii_upper [str_of ''btcusdt''] 0 60 :: ticker_row streamer)) \<and>
   on_message sample_float (\<lambda>_. 0) sample_strftime (Some (sample_wrapper\<lparr>symbol := str_of ''XRPUSDT''\<rparr>))
       (init_streamer ascii_upper [str_of ''btcusdt'', str_of ''ethusdt''] 0 60)
     = init_streamer ascii_upper [str_of ''btcusdt'', str_of ''ethusdt''] 0 60 \<and>
   parse_ticker_message sample_float (Some sample_wrapper) \<noteq> None \<and>
   on_message_ticker sample_float sample_strftime [] (Some sample_wrapper)
       (init_streamer ascii_upper [str_of ''btcusdt''] 0 60)
     = init_streamer ascii_upper [str_of ''btcusdt''] 0 60 \<and>
   list_all (\<lambda>t. sample_strftime (trade_timestamp t) \<noteq> None)
     [sample_trade (str_of ''BTCUSDT'') 1 1000, sample_trade (str_of ''XRPUSDT'') 1 1500,
      sample_trade (str_of ''ETHUSDT'') 2 2000, sample_trade (str_of ''BTCUSDT'') 2 3000] \<and>
   map Some
     (buffered
        (route_trades sample_strftime
           [sample_trade (str_of ''BTCUSDT'') 1 1000, sample_trade (str_of ''XRPUSDT'') 1 1500,
            sample_trade (str_of ''ETHUSDT'') 2 2000, sample_trade (str_of ''BTCUSDT'') 2 3000]
           (init_streamer ascii_upper [str_of ''btcusdt'', str_of ''ethusdt''] 0 60))
        (str_of ''BTCUSDT''))
     = [trade_data_row sample_strftime (sample_trade (str_of ''BTCUSDT'') 1 1000),
        trade_data_row sample_strftime (sample_trade (str_of ''BTCUSDT'') 2 3000)] \<and>
   sample_strftime (trade_timestamp (sample_trade (str_of ''BTCUSDT'') 1 253402300800000)) = None \<and>
   trade_data_row sample_strftime (sample_trade (str_of ''BTCUSDT'') 1 253402300800000) = None \<and>
   route_trades sample_strftime [sample_trade (str_of ''BTCUSDT'') 1 253402300800000]
       (init_streamer ascii_upper [str_of ''btcusdt'', str_of ''ethusdt''] 0 60)
     = init_streamer ascii_upper [str_of ''btcusdt'', str_of ''ethusdt''] 0 60"
proof -
  let ?st = "init_streamer ascii_upper [str_of ''btcusdt'', str_of ''ethusdt''] 0 60 :: trade_row streamer"
  let ?tst = "init_streamer ascii_upper [str_of ''btcusdt''] 0 60 :: ticker_row streamer"
  let ?ts = "[sample_trade (str_of ''BTCUSDT'') 1 1000, sample_trade (str_of ''XRPUSDT'') 1 1500,
         sample_trade (str_of ''ETHUSDT'') 2 2000, sample_trade (str_of ''BTCUSDT'') 2 3000]"
  let ?x = "sample_wrapper\<lparr>symbol := str_of ''XRPUSDT''\<rparr>"
  have h1: "dicts_ok ?st" by (rule dicts_ok_init)
  have h2: "dicts_ok ?tst" by (rule dicts_ok_init)
  have sy: "symbols ?st = [str_of ''BTCUSDT'', str_of ''ETHUSDT'']"
    "symbols ?tst = [str_of ''BTCUSDT'']"
    by (simp_all add: init_streamer_def ascii_upper_def str_of_def)
  have n: "str_of ''BTCUSDT'' \<noteq> []" "str_of ''BTCUSDT'' \<in> set (symbols ?st)"
    unfolding sy by (simp_all add: str_of_def)
  have l: "length (List.map_filter (trade_data_row sample_strftime)
             (filter (\<lambda>t. trade_symbol t = str_of ''BTCUSDT'') ?ts)) = 2"
    by (simp add: sample_trade_def sample_strftime_def trade_data_row_def str_of_def)
  have u: "\<forall>t\<in>set [sample_trade (str_of ''XRPUSDT'') 1 1500].
             trade_symbol t = [] \<or> trade_symbol t \<notin> set (symbols ?st)"
    unfolding sy by (simp add: sample_trade_def str_of_def)
  have w1: "symbol ?x \<notin> set (symbols ?st)"
    unfolding sy by (simp add: str_of_def)
  have w2: "symbol sample_wrapper \<notin> set (symbols ?tst)"
    unfolding sy by (simp add: sample_wrapper_def str_of_def)
  obtain td where td: "parse_ticker_message sample_float (Some sample_wrapper) = Some td"
  proof -
    have "float_or_zero sample_float (str_of ''100.0'') = Some (Finite 100)"
      "float_or_zero sample_float (str_of ''1.0'') = Some (Finite 1)"
      "float_or_zero sample_float (str_of ''101.0'') = Some (Finite 101)"
      by (simp_all add: float_or_zero_def sample_float_values) (simp_all add: str_of_def)
    then have "\<exists>td. parse_ticker_message sample_float (Some sample_wrapper) = Some td"
      unfolding parse_ticker_message_Some
      by (simp add: sample_wrapper_def spread_101_100 spread_percent_101_100 ticker_valid_def)
    then show ?thesis using that by blast
  qed
  have ts: "ticker_symbol td = symbol sample_wrapper"
    using td unfolding parse_ticker_message_Some by auto
  note t1 = records_are_routed_by_their_decoded_symbol
    [where st = ?st and tst = ?tst and strftime = sample_strftime and trades = ?ts
       and k = "str_of ''BTCUSDT''", OF h1 h2]
  note t2 = records_are_routed_by_their_decoded_symbol
    [where st = ?st and tst = ?tst and strftime = sample_strftime
       and trades = "[sample_trade (str_of ''XRPUSDT'') 1 1500]" and w = ?x
       and py_float = sample_float and clock = "\<lambda>_. 0" and wrapper = "Some sample_wrapper"
       and now_str = "[]" and td = td, OF h1 h2]
  have a: "length (buffered (route_trades sample_strftime ?ts ?st) (str_of ''BTCUSDT'')) = 2"
    using t1 [THEN conjunct1] n l by (simp add: init_views)
  have b: "route_trades sample_strftime [sample_trade (str_of ''XRPUSDT'') 1 1500] ?st = ?st"
    using t2 u by blast
  have c: "on_message sample_float (\<lambda>_. 0) sample_strftime (Some ?x) ?st = ?st"
    using t2 w1 by blast
  have d: "on_message_ticker sample_float sample_strftime [] (Some sample_wrapper) ?tst = ?tst"
    using t2 td ts w2 by metis
  have e: "parse_ticker_message sample_float (Some sample_wrapper) \<noteq> None" using td by simp
  let ?late = "sample_trade (str_of ''BTCUSDT'') 1 253402300800000"
  have al: "\<forall>t\<in>set ?ts. sample_strftime (trade_timestamp t) \<noteq> None"
    by (simp add: sample_trade_def sample_strftime_def)
  have fl: "filter (\<lambda>t. trade_symbol t = str_of ''BTCUSDT'') ?ts
              = [sample_trade (str_of ''BTCUSDT'') 1 1000, sample_trade (str_of ''BTCUSDT'') 2 3000]"
    by (simp add: sample_trade_def str_of_def)
  have m: "map Some (buffered (route_trades sample_strftime ?ts ?st) (str_of ''BTCUSDT''))
             = [trade_data_row sample_strftime (sample_trade (str_of ''BTCUSDT'') 1 1000),
                trade_data_row sample_strftime (sample_trade (str_of ''BTCUSDT'') 2 3000)]"
  proof -
    from t1 al n
    have "map Some (drop (length (buffered ?st (str_of ''BTCUSDT'')))
                      (buffered (route_trades sample_strftime ?ts ?st) (str_of ''BTCUSDT'')))
            = map (trade_data_row sample_strftime)
                (filter (\<lambda>t. trade_symbol t = str_of ''BTCUSDT'') ?ts)"
      by blast
    then show ?thesis unfolding fl by (simp add: init_views)
  qed
  have ln: "sample_strftime (trade_timestamp ?late) = None"
    by (simp add: sample_trade_def sample_strftime_def)
  note t3 = records_are_routed_by_their_decoded_symbol
    [where st = ?st and tst = ?tst and strftime = sample_strftime and t = ?late, OF h1 h2]
  have lr: "trade_data_row sample_strftime ?late = None" using t3 ln by blast
  have ld: "route_trades sample_strftime [?late] ?st = ?st" using t3 ln by blast
  have la: "list_all (\<lambda>t. sample_strftime (trade_timestamp t) \<noteq> None) ?ts"
    using al by (simp only: list_all_iff)
  show ?thesis using h1 h2 a b w2 c e d la m ln lr ld by blast
qed

theorem deal_is_accepted_iff_valid_witness:
  "sample_float (str_of ''5.0005'') = Some (round_binary64 (50005 / 10000)) \<and>
   sample_float (str_of ''5.0'') = Some (Finite 5) \<and>
   parse_deal sample_float 0 (str_of ''BTCUSDT'') []
     \<lparr>price = str_of ''5.0005'', quantity = str_of ''5.0'', tradeType = 1, time = 1000\<rparr> = None \<and>
   parse_deal sample_float 0 (str_of ''BTCUSDT'') []
     \<lparr>price = str_of ''5.0'', quantity = str_of ''5.0'', tradeType = 1, time = 1000\<rparr> = None \<and>
   (\<exists>t r. parse_deal sample_float 0 (str_of ''BTCUSDT'') []
             \<lparr>price = str_of ''100.0'', quantity = str_of ''2.0'', tradeType = 1, time = 1000\<rparr> = Some t \<and>
          trade_data_row sample_strftime t = Some r \<and> row_trade_type_str r = str_of ''BUY'') \<and>
   (\<exists>t r. parse_deal sample_float 0 (str_of ''BTCUSDT'') []
             \<lparr>price = str_of ''100.0'', quantity = str_of ''2.0'', tradeType = 2, time = 1000\<rparr> = Some t \<and>
          trade_data_row sample_strftime t = Some r \<and> row_trade_type_str r = str_of ''SELL'')"
proof -
  let ?a = "\<lparr>price = str_of ''5.0005'', quantity = str_of ''5.0'', tradeType = 1, time = 1000\<rparr>"
  let ?b = "\<lparr>price = str_of ''5.0'', quantity = str_of ''5.0'', tradeType = 1, time = 1000\<rparr>"
  let ?c = "\<lparr>price = str_of ''100.0'', quantity = str_of ''2.0'', tradeType = 1, time = 1000\<rparr>"
  let ?d = "\<lparr>price = str_of ''100.0'', quantity = str_of ''2.0'', tradeType = 2, time = 1000\<rparr>"
  have ha: "sample_float (price ?a) = Some (round_binary64 (50005 / 10000)) \<and>
            sample_float (quantity ?a) = Some (Finite 5)"
    by (simp add: sample_float_values)
  have hb: "sample_float (price ?b) = Some (Finite 5) \<and> sample_float (quantity ?b) = Some (Finite 5)"
    by (simp add: sample_float_values)
  have hc: "\<exists>p q. sample_float (price ?c) = Some p \<and> sample_float (quantity ?c) = Some q \<and>
              py_gt p (Finite 0) \<and> py_gt q (Finite 0) \<and> py_ne p q \<and>
              py_gt (py_abs (py_sub p q)) (round_binary64 (1 / 1000))"
    using deal_valid_100_2 by (simp add: sample_float_values deal_valid_def)
  have hd: "\<exists>p q. sample_float (price ?d) = Some p \<and> sample_float (quantity ?d) = Some q \<and>
              py_gt p (Finite 0) \<and> py_gt q (Finite 0) \<and> py_ne p q \<and>
              py_gt (py_abs (py_sub p q)) (round_binary64 (1 / 1000))"
    using deal_valid_100_2 by (simp add: sample_float_values deal_valid_def)
  note ta = deal_is_accepted_iff_valid
    [where py_float = sample_float and now = 0 and msym = "str_of ''BTCUSDT''" and chan = "[]"
       and deal = ?a]
  note tb = deal_is_accepted_iff_valid
    [where py_float = sample_float and now = 0 and msym = "str_of ''BTCUSDT''" and chan = "[]"
       and deal = ?b]
  have 1: "parse_deal sample_float 0 (str_of ''BTCUSDT'') [] ?a = None" using ta ha by blast
  have 2: "parse_deal sample_float 0 (str_of ''BTCUSDT'') [] ?b = None" using tb hb by blast
  obtain tc where tc: "parse_deal sample_float 0 (str_of ''BTCUSDT'') [] ?c = Some tc"
    using deal_is_accepted_iff_valid
      [where py_float = sample_float and now = 0 and msym = "str_of ''BTCUSDT''" and chan = "[]"
         and deal = ?c] hc
    by blast
  obtain td where td: "parse_deal sample_float 0 (str_of ''BTCUSDT'') [] ?d = Some td"
    using deal_is_accepted_iff_valid
      [where py_float = sample_float and now = 0 and msym = "str_of ''BTCUSDT''" and chan = "[]"
         and deal = ?d] hd
    by blast
  obtain rc where rc: "trade_data_row sample_strftime tc = Some rc"
    using tc by (auto simp: parse_deal_Some trade_data_row_def sample_strftime_def)
  obtain rd where rd: "trade_data_row sample_strftime td = Some rd"
    using td by (auto simp: parse_deal_Some trade_data_row_def sample_strftime_def)
  have 3: "row_trade_type_str rc = str_of ''BUY''"
    using deal_is_accepted_iff_valid
      [where py_float = sample_float and now = 0 and msym = "str_of ''BTCUSDT''" and chan = "[]"
         and deal = ?c and t = tc and strftime = sample_strftime and data_row = rc] tc rc
    by simp
  have 4: "row_trade_type_str rd = str_of ''SELL''"
    using deal_is_accepted_iff_valid
      [where py_float = sample_float and now = 0 and msym = "str_of ''BTCUSDT''" and chan = "[]"
         and deal = ?d and t = td and strftime = sample_strftime and data_row = rd] td rd
    by simp
  have s: "sample_float (str_of ''5.0005'') = Some (round_binary64 (50005 / 10000))"
    "sample_float (str_of ''5.0'') = Some (Finite 5)"
    by (rule sample_float_values)+
  show ?thesis using s 1 2 tc rc 3 td rd 4 by blast
qed

theorem row_timestamp_is_deal_time_or_clock_witness:
  "dicts_ok (init_streamer ascii_upper [str_of ''btcusdt''] 0 60 :: trade_row streamer) \<and>
   str_of ''BTCUSDT''
     \<in> set (symbols (init_streamer ascii_upper [str_of ''btcusdt''] 0 60 :: trade_row streamer)) \<and>
   (\<exists>t r. parse_deal sample_float 777 (str_of ''BTCUSDT'') []
             \<lparr>price = str_of ''100.0'', quantity = str_of ''2.0'', tradeType = 1, time = 1000\<rparr> = Some t \<and>
          trade_data_row sample_strftime t = Some r \<and> row_timestamp r = 1000 \<and>
          buffered (process_trade sample_strftime t (str_of ''BTCUSDT'')
                      (init_streamer ascii_upper [str_of ''btcusdt''] 0 60)) (str_of ''BTCUSDT'')
            = buffered (init_streamer ascii_upper [str_of ''btcusdt''] 0 60) (str_of ''BTCUSDT'') @ [r]) \<and>
   (\<exists>t r. parse_deal sample_float 777 (str_of ''BTCUSDT'') []
             \<lparr>price = str_of ''100.0'', quantity = str_of ''2.0'', tradeType = 1, time = 0\<rparr> = Some t \<and>
          trade_data_row sample_strftime t = Some r \<and> row_timestamp r = 777)"
proof -
  let ?a = "\<lparr>price = str_of ''100.0'', quantity = str_of ''2.0'', tradeType = 1, time = 1000\<rparr>"
  let ?b = "\<lparr>price = str_of ''100.0'', quantity = str_of ''2.0'', tradeType = 1, time = 0\<rparr>"
  let ?ini = "init_streamer ascii_upper [str_of ''btcusdt''] 0 60 :: trade_row streamer"
  have h1: "dicts_ok ?ini" by (rule dicts_ok_init)
  have h2: "str_of ''BTCUSDT'' \<in> set (symbols ?ini)"
    by (simp add: init_streamer_def ascii_upper_def str_of_def)
  obtain ta where ta: "parse_deal sample_float 777 (str_of ''BTCUSDT'') [] ?a = Some ta"
    using deal_valid_100_2 by (simp add: parse_deal_def sample_float_values)
  obtain tb where tb: "parse_deal sample_float 777 (str_of ''BTCUSDT'') [] ?b = Some tb"
    using deal_valid_100_2 by (simp add: parse_deal_def sample_float_values)
  obtain ra where ra: "trade_data_row sample_strftime ta = Some ra"
    using ta by (auto simp: parse_deal_Some trade_data_row_def sample_strftime_def)
  obtain rb where rb: "trade_data_row sample_strftime tb = Some rb"
    using tb by (auto simp: parse_deal_Some trade_data_row_def sample_strftime_def)
  note wa = row_timestamp_is_deal_time_or_clock
    [where py_float = sample_float and now = 777 and msym = "str_of ''BTCUSDT''" and chan = "[]"
       and deal = ?a and t = ta and strftime = sample_strftime and data_row = ra
       and st = ?ini and k = "str_of ''BTCUSDT''"]
  note wb = row_timestamp_is_deal_time_or_clock
    [where py_float = sample_float and now = 777 and msym = "str_of ''BTCUSDT''" and chan = "[]"
       and deal = ?b and t = tb and strftime = sample_strftime and data_row = rb]
  have 1: "row_timestamp ra = 1000" using wa ta ra by simp
  have 2: "buffered (process_trade sample_strftime ta (str_of ''BTCUSDT'') ?ini) (str_of ''BTCUSDT'')
            = buffered ?ini (str_of ''BTCUSDT'') @ [ra]"
    using wa h1 h2 ra by blast
  have 3: "row_timestamp rb = 777" using wb tb rb by simp
  show ?thesis using h1 h2 ta ra 1 2 tb rb 3 by blast
qed

theorem ticker_is_accepted_iff_positive_witness:
  "publicAggreBookTicker sample_wrapper
     = Some \<lparr>bidPrice = str_of ''100.0'', bidQuantity = str_of ''1.0'',
             askPrice = str_of ''101.0'', askQuantity = str_of ''1.0''\<rparr> \<and>
   float_or_zero sample_float (str_of ''100.0'') = Some (Finite 100) \<and>
   float_or_zero sample_float (str_of ''1.0'') = Some (Finite 1) \<and>
   float_or_zero sample_float (str_of ''101.0'') = Some (Finite 101) \<and>
   (\<exists>td. parse_ticker_message sample_float (Some sample_wrapper) = Some td \<and>
         spread td = Finite 1 \<and> spread_percent td = Finite 1 \<and>
         spread td = py_sub (ask_price td) (bid_price td)) \<and>
   py_gt (Finite 0) (Finite 0) = False \<and>
   ticker_spread (Finite 0) (Finite 100) = Finite 0 \<and>
   ticker_spread_percent (ticker_spread (Finite 0) (Finite 100)) (Finite 100) = Some (Finite 0)"
proof -
  let ?bt = "\<lparr>bidPrice = str_of ''100.0'', bidQuantity = str_of ''1.0'',
              askPrice = str_of ''101.0'', askQuantity = str_of ''1.0''\<rparr>"
  have w: "publicAggreBookTicker sample_wrapper = Some ?bt"
    by (simp add: sample_wrapper_def)
  have f: "float_or_zero sample_float (str_of ''100.0'') = Some (Finite 100)"
    "float_or_zero sample_float (str_of ''1.0'') = Some (Finite 1)"
    "float_or_zero sample_float (str_of ''101.0'') = Some (Finite 101)"
    by (simp_all add: float_or_zero_def sample_float_values) (simp_all add: str_of_def)
  have h: "publicAggreBookTicker sample_wrapper = Some ?bt \<and>
    float_or_zero sample_float (bidPrice ?bt) = Some (Finite 100) \<and>
    float_or_zero sample_float (bidQuantity ?bt) = Some (Finite 1) \<and>
    float_or_zero sample_float (askPrice ?bt) = Some (Finite 101) \<and>
    float_or_zero sample_float (askQuantity ?bt) = Some (Finite 1)"
    using w f by simp
  obtain td where td: "parse_ticker_message sample_float (Some sample_wrapper) = Some td"
    "spread td = Finite 1" "spread_percent td = Finite 1"
    using ticker_is_accepted_iff_positive
      [where py_float = sample_float and w = sample_wrapper and bt = ?bt] h
    by blast
  have s: "spread td = py_sub (ask_price td) (bid_price td)"
    using ticker_is_accepted_iff_positive
      [where py_float = sample_float and w = sample_wrapper and td = td] td(1)
    by blast
  have n: "py_gt (Finite 0) (Finite 0) = False" by simp
  have d: "ticker_spread (Finite 0) (Finite 100) = Finite 0 \<and>
    ticker_spread_percent (ticker_spread (Finite 0) (Finite 100)) (Finite 100) = Some (Finite 0)"
    using ticker_is_accepted_iff_positive [where ask = "Finite 0" and bid = "Finite 100"] n
    by blast
  show ?thesis using w f td s n d by blast
qed

end
